theory Spec2Isabelle
  imports Main
begin

section \<open>JavaScript values\<close>

text \<open>
  The values the two modules handle. Numbers are kept as integers with a separate
  not-a-number value: the code only ever tests a value for truthiness, which for a
  number depends on its being zero or NaN. Arrays and objects are compared by their
  contents; an object is its list of own properties in insertion order.
\<close>

datatype jsval =
    JUndefined
  | JNull
  | JBool bool
  | JNum int
  | JNaN
  | JStr string
  | JArr "jsval list"
  | JObj "(string \<times> jsval) list"

text \<open>\<^verbatim>\<open>Array.isArray( data )\<close>\<close>

fun isArray :: "jsval \<Rightarrow> bool" where
  "isArray (JArr xs) = True"
| "isArray v = False"

text \<open>
  The truthiness a condition \<^verbatim>\<open>!value\<close> tests: undefined, null, false, zero, NaN and
  the empty string are falsy, everything else (every array and object too) is truthy.
\<close>

fun truthy :: "jsval \<Rightarrow> bool" where
  "truthy JUndefined = False"
| "truthy JNull = False"
| "truthy (JBool b) = b"
| "truthy (JNum n) = (n \<noteq> 0)"
| "truthy JNaN = False"
| "truthy (JStr s) = (s \<noteq> [])"
| "truthy (JArr xs) = True"
| "truthy (JObj ps) = True"

section \<open>utils/toarray\<close>

text \<open>
  \<^verbatim>\<open>export default function toArray( data = [] ) {
      return Array.isArray( data ) ? data : [ data ];
  }\<close>
  The argument is optional: \<open>None\<close> is a call with no argument. The default \<^verbatim>\<open>[]\<close>
  replaces a missing argument and an argument that is \<^verbatim>\<open>undefined\<close>, and nothing else
  (not \<^verbatim>\<open>null\<close>).
\<close>

definition toArray :: "jsval option \<Rightarrow> jsval" where
  "toArray arg =
     (let data = (case arg of
                    None \<Rightarrow> JArr []
                  | Some JUndefined \<Rightarrow> JArr []
                  | Some v \<Rightarrow> v)
      in if isArray data then data else JArr [data])"

section \<open>table/tablecellpropertiesui: constants and command names\<close>

definition DEFAULT_BORDER_STYLE :: jsval where
  "DEFAULT_BORDER_STYLE = JStr ''none''"

definition DEFAULT_HORIZONTAL_ALIGNMENT :: jsval where
  "DEFAULT_HORIZONTAL_ALIGNMENT = JStr ''left''"

definition DEFAULT_VERTICAL_ALIGNMENT :: jsval where
  "DEFAULT_VERTICAL_ALIGNMENT = JStr ''middle''"

definition CELL_PROPERTIES :: "string list" where
  "CELL_PROPERTIES =
     [''borderStyle'', ''borderColor'', ''borderWidth'',
      ''padding'', ''backgroundColor'',
      ''horizontalAlignment'', ''verticalAlignment'']"

text \<open>
  The one exception the module can raise by itself: reading a property of \<^verbatim>\<open>undefined\<close>
  (\<^verbatim>\<open>propertyName[ 0 ].toUpperCase()\<close> on the empty string, \<^verbatim>\<open>commands.get( name ).value\<close>
  for a command that is not registered).
\<close>

datatype error = TypeError

text \<open>
  \<^verbatim>\<open>String.prototype.toUpperCase\<close>, on the ASCII letters. A character outside
  \<open>a\<close>..\<open>z\<close> is returned as it is; the Unicode case mapping of characters beyond ASCII is not
  part of this development (every property name of the module is ASCII).
\<close>

definition toUpperCase_char :: "char \<Rightarrow> char" where
  "toUpperCase_char c =
     (case map_of (zip ''abcdefghijklmnopqrstuvwxyz'' ''ABCDEFGHIJKLMNOPQRSTUVWXYZ'') c of
        None \<Rightarrow> c
      | Some u \<Rightarrow> u)"

definition toUpperCase :: "string \<Rightarrow> string" where
  "toUpperCase s = map toUpperCase_char s"

text \<open>
  \<^verbatim>\<open>function propertyNameToCommandName( propertyName ) {
      return `tableCell${ propertyName[ 0 ].toUpperCase() }${ propertyName.slice( 1 ) }`;
  }\<close>
  On the empty string \<^verbatim>\<open>propertyName[ 0 ]\<close> is undefined and the method call raises.
\<close>

definition propertyNameToCommandName :: "string \<Rightarrow> error + string" where
  "propertyNameToCommandName propertyName =
     (case propertyName of
        [] \<Rightarrow> Inl TypeError
      | c # cs \<Rightarrow> Inr (''tableCell'' @ toUpperCase [c] @ cs))"

text \<open>
  The mapping as the specification words it, to compare the code with: the namespace
  token \<open>tableCell\<close> in front of the property name with its first letter capitalised.
\<close>

definition capitalized :: "string \<Rightarrow> string" where
  "capitalized s = (case s of [] \<Rightarrow> [] | c # cs \<Rightarrow> toUpperCase_char c # cs)"

definition nameOf :: "string \<Rightarrow> string" where
  "nameOf p = ''tableCell'' @ capitalized p"

section \<open>The collaborators of the plugin\<close>

text \<open>
  The views a balloon can hold: the plugin's own form (\<^verbatim>\<open>this.view\<close>) and the views of
  other plugins.
\<close>

datatype view = PropertiesView | OtherView nat

text \<open>
  Modelled from the spec: the contextual balloon (\<^verbatim>\<open>ContextualBalloon\<close>, the display-surface
  service), whose code is not in the repository's files. The specification gives its
  interface: \<^verbatim>\<open>add\<close>, \<^verbatim>\<open>remove\<close>, \<^verbatim>\<open>hasView\<close> and the \<^verbatim>\<open>visibleView\<close> accessor. It is a
  stack of views, the head being the visible one: \<open>add\<close> puts a view on top, \<open>remove\<close>
  takes it out, and the view below becomes visible. The plugin calls \<open>add\<close> only for a
  view the balloon does not hold and \<open>remove\<close> only for one it holds.
\<close>

type_synonym balloon = "view list"

definition hasView :: "balloon \<Rightarrow> view \<Rightarrow> bool" where
  "hasView b v = (v \<in> set b)"

definition visibleView :: "balloon \<Rightarrow> view option" where
  "visibleView b = (case b of [] \<Rightarrow> None | v # vs \<Rightarrow> Some v)"

definition balloon_add :: "view \<Rightarrow> balloon \<Rightarrow> balloon" where
  "balloon_add v b = v # b"

definition balloon_remove :: "view \<Rightarrow> balloon \<Rightarrow> balloon" where
  "balloon_remove v b = removeAll v b"

text \<open>
  The command registry as the plugin reads it: \<^verbatim>\<open>editor.commands.get( name )\<close> is the
  command of that name, here its \<^verbatim>\<open>value\<close>, or nothing when no such command is
  registered.
\<close>

type_synonym commands = "string \<Rightarrow> jsval option"

text \<open>
  Modelled from the spec: the batch service (\<^verbatim>\<open>editor.model.createBatch()\<close>), whose code
  is not in the repository's files. A batch is an opaque token, created fresh by each
  call: here the number of the call that made it.
\<close>

type_synonym batch = nat

text \<open>
  The second argument of \<^verbatim>\<open>editor.execute\<close>: the batch alone
  (\<^verbatim>\<open>editor.execute( 'undo', this._batch )\<close>) or the object
  \<^verbatim>\<open>{ value: newValue, batch: this._batch }\<close>. A batch of \<open>None\<close> is \<^verbatim>\<open>null\<close>.
\<close>

datatype argument =
    BatchArg "batch option"
  | ValueAndBatch jsval "batch option"

text \<open>
  What a handler does to its collaborators, in the order it does it. The position data
  given to \<^verbatim>\<open>balloon.add\<close> is left out. \<open>Uncaught\<close> marks a handler that ended by an
  exception.
\<close>

datatype call =
    BalloonAdd view
  | BalloonRemove view
  | CreateBatch
  | ViewSet "(string \<times> jsval) list"
  | ViewFocus
  | SaveButtonFocus
  | EditingViewFocus
  | Execute string argument
  | RepositionContextualBalloon
  | KeystrokeCancel
  | Uncaught error

datatype emitter = ViewE | EditorUiE | BalloonE

section \<open>The state of the plugin\<close>

text \<open>
  \<open>balloon\<close> is \<^verbatim>\<open>this._balloon\<close> (shared with other plugins), \<open>batch\<close> is \<^verbatim>\<open>this._batch\<close>,
  \<open>created\<close> counts the batches \<^verbatim>\<open>editor.model.createBatch()\<close> has made so far,
  \<open>listening\<close> holds the listeners registered with \<^verbatim>\<open>this.listenTo\<close> (the ones
  \<^verbatim>\<open>this.stopListening\<close> can remove), and \<open>viewOn\<close> the events of the view that have a
  callback attached with \<^verbatim>\<open>this.view.on\<close>.
\<close>

record state =
  balloon :: balloon
  batch :: "batch option"
  created :: nat
  listening :: "(emitter \<times> string) list"
  viewOn :: "string list"

text \<open>
  The outcome of a handler: the state it leaves, the calls it made and the exception it
  raised, if any. An exception leaves the state as it was when it was raised.
\<close>

record outcome =
  post :: state
  calls :: "call list"
  thrown :: "error option"

definition finished :: "state \<Rightarrow> call list \<Rightarrow> outcome" where
  "finished s cs = \<lparr>post = s, calls = cs, thrown = None\<rparr>"

definition throw :: "state \<Rightarrow> error \<Rightarrow> outcome" where
  "throw s e = \<lparr>post = s, calls = [], thrown = Some e\<rparr>"

text \<open>One statement after another: the second runs unless the first raised.\<close>

definition andThen :: "outcome \<Rightarrow> (state \<Rightarrow> outcome) \<Rightarrow> outcome" where
  "andThen r f =
     (case thrown r of
        Some e \<Rightarrow> r
      | None \<Rightarrow>
          (let r' = f (post r)
           in \<lparr>post = post r', calls = calls r @ calls r', thrown = thrown r'\<rparr>))"

definition listenTo :: "emitter \<Rightarrow> string \<Rightarrow> state \<Rightarrow> state" where
  "listenTo em ev s = s\<lparr>listening := listening s @ [(em, ev)]\<rparr>"

definition stopListening :: "emitter \<Rightarrow> string \<Rightarrow> state \<Rightarrow> state" where
  "stopListening em ev s = s\<lparr>listening := filter (\<lambda>l. l \<noteq> (em, ev)) (listening s)\<rparr>"

text \<open>\<^verbatim>\<open>get _isViewVisible() { return this._balloon.visibleView === this.view; }\<close>\<close>

definition isViewVisible :: "state \<Rightarrow> bool" where
  "isViewVisible s = (visibleView (balloon s) = Some PropertiesView)"

text \<open>\<^verbatim>\<open>get _isViewInBalloon() { return this._balloon.hasView( this.view ); }\<close>\<close>

definition isViewInBalloon :: "state \<Rightarrow> bool" where
  "isViewInBalloon s = hasView (balloon s) PropertiesView"

section \<open>The methods of the plugin\<close>

text \<open>
  \<^verbatim>\<open>_hideView()\<close>: nothing when the view is not in the balloon; otherwise the two
  \<^verbatim>\<open>stopListening\<close> calls, the focus back to the editable, and, the view being in the
  balloon (tested again), the focus on the save button, the removal and the focus again.
\<close>

definition hideView :: "state \<Rightarrow> outcome" where
  "hideView s =
     (if \<not> isViewInBalloon s then finished s []
      else
        let s1 = stopListening EditorUiE ''update'' s;
            s2 = stopListening BalloonE ''change:visibleView'' s1
        in andThen (finished s2 [EditingViewFocus])
             (\<lambda>s3. if isViewInBalloon s3
                    then finished (s3\<lparr>balloon := balloon_remove PropertiesView (balloon s3)\<rparr>)
                           [SaveButtonFocus, BalloonRemove PropertiesView, EditingViewFocus]
                    else finished s3 []))"

text \<open>\<^verbatim>\<open>data[ propertyName ] = value\<close> on an object kept as its list of properties.\<close>

fun setProp :: "string \<Rightarrow> jsval \<Rightarrow> (string \<times> jsval) list \<Rightarrow> (string \<times> jsval) list" where
  "setProp k v [] = [(k, v)]"
| "setProp k v ((k', v') # ps) =
     (if k' = k then (k, v) # ps else (k', v') # setProp k v ps)"

text \<open>
  One round of the loop of \<^verbatim>\<open>_fillViewFormFromCommandValues()\<close>: the value the form
  gets for a property. A command that is not registered makes
  \<^verbatim>\<open>editor.commands.get( ... ).value\<close> raise; a falsy value is replaced by the
  property's default.
\<close>

definition formValue :: "commands \<Rightarrow> string \<Rightarrow> error + jsval" where
  "formValue cmds propertyName =
     (case propertyNameToCommandName propertyName of
        Inl e \<Rightarrow> Inl e
      | Inr name \<Rightarrow>
          (case cmds name of
             None \<Rightarrow> Inl TypeError
           | Some v \<Rightarrow>
               Inr (if \<not> truthy v then
                      (if propertyName = ''borderStyle'' then DEFAULT_BORDER_STYLE
                       else if propertyName = ''horizontalAlignment'' then DEFAULT_HORIZONTAL_ALIGNMENT
                       else if propertyName = ''verticalAlignment'' then DEFAULT_VERTICAL_ALIGNMENT
                       else JStr [])
                    else v)))"

text \<open>
  The loop over the property names left, \<open>data\<close> being the object built so far.
\<close>

fun fillViewFormFromCommandValues_loop ::
  "commands \<Rightarrow> string list \<Rightarrow> (string \<times> jsval) list \<Rightarrow> error + (string \<times> jsval) list" where
  "fillViewFormFromCommandValues_loop cmds [] data = Inr data"
| "fillViewFormFromCommandValues_loop cmds (propertyName # rest) data =
     (case formValue cmds propertyName of
        Inl e \<Rightarrow> Inl e
      | Inr v \<Rightarrow> fillViewFormFromCommandValues_loop cmds rest (setProp propertyName v data))"

text \<open>
  The callback of the view's \<^verbatim>\<open>change\<close>, registered by
  \<^verbatim>\<open>_startRespondingToChangesInView()\<close>.
\<close>

definition onChange :: "string \<Rightarrow> jsval \<Rightarrow> state \<Rightarrow> outcome" where
  "onChange propertyName newValue s =
     (if propertyName \<notin> set CELL_PROPERTIES then finished s []
      else
        (case propertyNameToCommandName propertyName of
           Inl e \<Rightarrow> throw s e
         | Inr name \<Rightarrow> finished s [Execute name (ValueAndBatch newValue (batch s))]))"

text \<open>
  Modelled from the spec: the form view (\<^verbatim>\<open>TableCellPropertiesView\<close>), an observable store
  whose code is not in the repository's files. The specification gives \<^verbatim>\<open>set(record)\<close> as
  a bulk update that "fires \<^verbatim>\<open>change\<close> per property", and \<^verbatim>\<open>on('change', ...)\<close> as the
  way to listen. A change of a property runs, before it returns, the callbacks attached
  to the view's \<^verbatim>\<open>change\<close>: here the plugin's own, when it is attached.
\<close>

definition viewFireChange :: "string \<Rightarrow> jsval \<Rightarrow> state \<Rightarrow> outcome" where
  "viewFireChange propertyName newValue s =
     (if ''change'' \<in> set (viewOn s) then onChange propertyName newValue s else finished s [])"

text \<open>The change events of \<^verbatim>\<open>set(record)\<close>: one for each property of the record, in order.\<close>

fun viewSet_changes :: "(string \<times> jsval) list \<Rightarrow> state \<Rightarrow> outcome" where
  "viewSet_changes [] s = finished s []"
| "viewSet_changes ((propertyName, newValue) # rest) s =
     andThen (viewFireChange propertyName newValue s) (viewSet_changes rest)"

text \<open>
  \<^verbatim>\<open>this.view.set( data )\<close>: the call, and inside it the change events and what their
  callbacks do.
\<close>

definition viewSet :: "(string \<times> jsval) list \<Rightarrow> state \<Rightarrow> outcome" where
  "viewSet data s = andThen (finished s [ViewSet data]) (viewSet_changes data)"

text \<open>
  \<^verbatim>\<open>_fillViewFormFromCommandValues()\<close>: the loop from the empty object, then one
  \<^verbatim>\<open>this.view.set( data )\<close>. The view being observable, the change callback of the
  plugin runs for the properties of the record inside that call, so filling the form
  executes their commands with the batch the plugin holds at that time.
\<close>

definition fillViewFormFromCommandValues :: "commands \<Rightarrow> state \<Rightarrow> outcome" where
  "fillViewFormFromCommandValues cmds s =
     (case fillViewFormFromCommandValues_loop cmds CELL_PROPERTIES [] of
        Inl e \<Rightarrow> throw s e
      | Inr data \<Rightarrow> viewSet data s)"

text \<open>
  \<^verbatim>\<open>_showView()\<close>: nothing when the view is visible; otherwise the view is added to the
  balloon unless it is in it, a new batch is created and stored, the form is filled
  (which runs the change callback) and focused. \<open>cmds\<close> is what the commands report at
  the time of the call.
\<close>

definition showView :: "commands \<Rightarrow> state \<Rightarrow> outcome" where
  "showView cmds s =
     (if isViewVisible s then finished s []
      else
        andThen
          (if \<not> isViewInBalloon s
           then finished (s\<lparr>balloon := balloon_add PropertiesView (balloon s)\<rparr>) [BalloonAdd PropertiesView]
           else finished s [])
          (\<lambda>s1. andThen
             (finished (s1\<lparr>batch := Some (created s1), created := Suc (created s1)\<rparr>) [CreateBatch])
             (\<lambda>s2. andThen (fillViewFormFromCommandValues cmds s2)
                (\<lambda>s3. finished s3 [ViewFocus]))))"

subsection \<open>The listeners\<close>

text \<open>\<^verbatim>\<open>this.listenTo( view, 'submit', () => { this._hideView(); } );\<close>\<close>

definition onSubmit :: "state \<Rightarrow> outcome" where
  "onSubmit s = hideView s"

text \<open>
  \<^verbatim>\<open>this.listenTo( view, 'cancel', () => {
      editor.execute( 'undo', this._batch );
      this._hideView();
  } );\<close>
\<close>

definition onCancel :: "state \<Rightarrow> outcome" where
  "onCancel s = andThen (finished s [Execute ''undo'' (BatchArg (batch s))]) hideView"

text \<open>
  \<^verbatim>\<open>view.keystrokes.set( 'Esc', ( data, cancel ) => {
      this._hideView();
      cancel();
  } );\<close>
  where \<^verbatim>\<open>cancel\<close> is the keystroke's own callback (it stops the key event).
\<close>

definition onEsc :: "state \<Rightarrow> outcome" where
  "onEsc s = andThen (hideView s) (\<lambda>s1. finished s1 [KeystrokeCancel])"

text \<open>
  The listener of \<^verbatim>\<open>editor.ui\<close>'s \<^verbatim>\<open>update\<close>; \<open>inTable\<close> says whether
  \<^verbatim>\<open>getTableWidgetAncestor( viewDocument.selection )\<close> finds a table.
\<close>

definition onUpdate :: "bool \<Rightarrow> state \<Rightarrow> outcome" where
  "onUpdate inTable s =
     (if \<not> inTable then hideView s
      else if isViewVisible s then finished s [RepositionContextualBalloon]
      else finished s [])"

text \<open>
  The click-outside handler: \<^verbatim>\<open>activator: () => this._isViewInBalloon\<close>,
  \<^verbatim>\<open>callback: () => this._hideView()\<close>.
\<close>

definition onClickOutside :: "state \<Rightarrow> outcome" where
  "onClickOutside s = (if isViewInBalloon s then hideView s else finished s [])"

subsection \<open>init\<close>

text \<open>The listeners \<^verbatim>\<open>_createPropertiesView()\<close> registers with \<^verbatim>\<open>this.listenTo\<close>.\<close>

definition createPropertiesView :: "state \<Rightarrow> state" where
  "createPropertiesView s =
     listenTo EditorUiE ''update'' (listenTo ViewE ''cancel'' (listenTo ViewE ''submit'' s))"

text \<open>\<^verbatim>\<open>_startRespondingToChangesInView()\<close>: \<^verbatim>\<open>this.view.on( 'change', ... )\<close>.\<close>

definition startRespondingToChangesInView :: "state \<Rightarrow> state" where
  "startRespondingToChangesInView s = s\<lparr>viewOn := viewOn s @ [''change'']\<rparr>"

text \<open>
  The plugin after \<^verbatim>\<open>init()\<close>, in an editor whose balloon holds \<open>b\<close> and whose model has
  created \<open>n\<close> batches: the view and its listeners, \<^verbatim>\<open>this._batch = null\<close>, the change
  callback.
\<close>

definition init :: "balloon \<Rightarrow> nat \<Rightarrow> state" where
  "init b n =
     startRespondingToChangesInView
       ((createPropertiesView
           \<lparr>balloon = b, batch = None, created = n, listening = [], viewOn = []\<rparr>)
        \<lparr>batch := None\<rparr>)"

section \<open>Events\<close>

text \<open>
  What can happen to the plugin: the toolbar button fires \<^verbatim>\<open>execute\<close> (with what the
  commands report then), the form fires \<^verbatim>\<open>submit\<close>, \<^verbatim>\<open>cancel\<close> or \<^verbatim>\<open>change\<close> (a field
  changed by the user; the changes that filling the form fires run inside \<open>show\<close>), Esc is
  pressed in the form, the editor's UI fires \<^verbatim>\<open>update\<close>, the user clicks outside the
  balloon, and another plugin puts a view of its own into the balloon or takes it out.
  \<^verbatim>\<open>destroy()\<close> ends the plugin's life and is not among them.
\<close>

datatype event =
    ButtonExecute commands
  | ViewSubmit
  | ViewCancel
  | ViewChange string jsval
  | KeyEsc
  | UiUpdate bool
  | ClickOutside
  | OtherAdd nat
  | OtherRemove nat

text \<open>
  An event runs its listener when the listener is registered at that time. The button's
  listener, the keystroke and the click-outside handler are never removed by the plugin.
\<close>

fun fire :: "event \<Rightarrow> state \<Rightarrow> outcome" where
  "fire (ButtonExecute cmds) s = showView cmds s"
| "fire ViewSubmit s =
     (if (ViewE, ''submit'') \<in> set (listening s) then onSubmit s else finished s [])"
| "fire ViewCancel s =
     (if (ViewE, ''cancel'') \<in> set (listening s) then onCancel s else finished s [])"
| "fire (ViewChange propertyName newValue) s = viewFireChange propertyName newValue s"
| "fire KeyEsc s = onEsc s"
| "fire (UiUpdate inTable) s =
     (if (EditorUiE, ''update'') \<in> set (listening s) then onUpdate inTable s else finished s [])"
| "fire ClickOutside s = onClickOutside s"
| "fire (OtherAdd k) s =
     (if hasView (balloon s) (OtherView k) then finished s []
      else finished (s\<lparr>balloon := balloon_add (OtherView k) (balloon s)\<rparr>) [])"
| "fire (OtherRemove k) s =
     (if hasView (balloon s) (OtherView k)
      then finished (s\<lparr>balloon := balloon_remove (OtherView k) (balloon s)\<rparr>) []
      else finished s [])"

text \<open>The calls of an outcome, with the exception that escaped, if any, at the end.\<close>

definition emitted :: "outcome \<Rightarrow> call list" where
  "emitted r = calls r @ (case thrown r of None \<Rightarrow> [] | Some e \<Rightarrow> [Uncaught e])"

text \<open>
  A sequence of events, one after the other on the event loop: the state it leaves and
  the calls it makes. An exception ends its handler, not the sequence.
\<close>

fun stateAfter :: "event list \<Rightarrow> state \<Rightarrow> state" where
  "stateAfter [] s = s"
| "stateAfter (e # es) s = stateAfter es (post (fire e s))"

fun trace :: "event list \<Rightarrow> state \<Rightarrow> call list" where
  "trace [] s = []"
| "trace (e # es) s = emitted (fire e s) @ trace es (post (fire e s))"

text \<open>The undo executions among some calls, and the command executions of any kind.\<close>

fun isUndo :: "call \<Rightarrow> bool" where
  "isUndo (Execute name a) = (name = ''undo'')"
| "isUndo c = False"

fun isExecute :: "call \<Rightarrow> bool" where
  "isExecute (Execute name a) = True"
| "isExecute c = False"

section \<open>Notions the theorems are stated with\<close>

text \<open>The change events of a list of fields and new values, in order.\<close>

definition changes :: "(string \<times> jsval) list \<Rightarrow> event list" where
  "changes pvs = map (\<lambda>(p, v). ViewChange p v) pvs"

text \<open>
  The command executions expected of those change events under batch \<open>b\<close>: one for each
  tracked property, named by the specification's \<open>nameOf\<close>, with the new value and \<open>b\<close>.
\<close>

definition executions :: "batch option \<Rightarrow> (string \<times> jsval) list \<Rightarrow> call list" where
  "executions b pvs =
     map (\<lambda>(p, v). Execute (nameOf p) (ValueAndBatch v b))
       (filter (\<lambda>(p, v). p \<in> set CELL_PROPERTIES) pvs)"

text \<open>The listeners that \<^verbatim>\<open>init()\<close> registers and nothing removes.\<close>

definition wired :: "state \<Rightarrow> bool" where
  "wired s =
     ((ViewE, ''submit'') \<in> set (listening s) \<and> (ViewE, ''cancel'') \<in> set (listening s)
      \<and> ''change'' \<in> set (viewOn s))"

text \<open>The batch the plugin holds, if any, is one the editor has created.\<close>

definition batchKnown :: "state \<Rightarrow> bool" where
  "batchKnown s = (case batch s of None \<Rightarrow> True | Some b \<Rightarrow> b < created s)"

fun isShow :: "event \<Rightarrow> bool" where
  "isShow (ButtonExecute cmds) = True"
| "isShow e = False"

text \<open>The calls that are a \<^verbatim>\<open>set\<close> of the form.\<close>

fun isViewSet :: "call \<Rightarrow> bool" where
  "isViewSet (ViewSet data) = True"
| "isViewSet c = False"

text \<open>The executions of a field's command: the ones given a value and a batch.\<close>

fun isFieldExecute :: "call \<Rightarrow> bool" where
  "isFieldExecute (Execute name (ValueAndBatch v b)) = True"
| "isFieldExecute c = False"

text \<open>The fields and new values of the change events among some events, in order.\<close>

fun changeOf :: "event \<Rightarrow> (string \<times> jsval) list" where
  "changeOf (ViewChange p v) = [(p, v)]"
| "changeOf e = []"

definition changesOf :: "event list \<Rightarrow> (string \<times> jsval) list" where
  "changesOf es = concat (map changeOf es)"

text \<open>
  No \<open>show\<close> among the events finds the form not visible: each \<open>show\<close> of the sequence
  comes when the form is visible (and does nothing).
\<close>

fun showsOnlyWhenVisible :: "event list \<Rightarrow> state \<Rightarrow> bool" where
  "showsOnlyWhenVisible [] s = True"
| "showsOnlyWhenVisible (e # es) s =
     ((if isShow e then isViewVisible s else True) \<and> showsOnlyWhenVisible es (post (fire e s)))"

text \<open>
  The command executions expected of filling the form under batch \<open>b\<close>: none when a
  command is not registered (the fill raises before the \<open>set\<close>), otherwise one for each
  property of the record pushed into the form.
\<close>

definition fillExecutions :: "commands \<Rightarrow> batch option \<Rightarrow> call list" where
  "fillExecutions cmds b =
     (case fillViewFormFromCommandValues_loop cmds CELL_PROPERTIES [] of
        Inl e \<Rightarrow> []
      | Inr data \<Rightarrow> executions b data)"

text \<open>
  The per-property defaults as the specification words them: three properties have a
  default of their own, every other property the empty string.
\<close>

definition defaultOf :: "string \<Rightarrow> jsval" where
  "defaultOf p =
     (if p = ''borderStyle'' then JStr ''none''
      else if p = ''horizontalAlignment'' then JStr ''left''
      else if p = ''verticalAlignment'' then JStr ''middle''
      else JStr [])"

text \<open>A registry in which every command reports the same value.\<close>

definition allReporting :: "jsval \<Rightarrow> commands" where
  "allReporting v = (\<lambda>name. Some v)"

section \<open>toArray\<close>

lemma isArray_toArray: "isArray (toArray arg)"
  by (cases arg; cases "the arg") (simp_all add: toArray_def)

lemma toArray_array: "isArray v \<Longrightarrow> toArray (Some v) = v"
  by (cases v) (simp_all add: toArray_def)

text \<open>
  C10. \<open>toArray\<close> returns an argument that is an array as it is, an empty array for a
  missing or undefined argument, and the one-element array of the argument otherwise;
  applying it to its own result changes nothing.
\<close>

theorem toArray_cases_idempotent:
  "toArray (Some (JArr xs)) = JArr xs
   \<and> toArray None = JArr []
   \<and> toArray (Some JUndefined) = JArr []
   \<and> toArray (Some v) =
        (if isArray v then v else if v = JUndefined then JArr [] else JArr [v])
   \<and> toArray (Some (toArray arg)) = toArray arg"
proof -
  have "toArray (Some v) =
        (if isArray v then v else if v = JUndefined then JArr [] else JArr [v])"
    by (cases v) (simp_all add: toArray_def)
  moreover have "toArray (Some (toArray arg)) = toArray arg"
    using isArray_toArray toArray_array by blast
  ultimately show ?thesis
    by (simp add: toArray_def)
qed

section \<open>Facts about the methods and the listeners\<close>

lemma name_nonempty: "p \<noteq> [] \<Longrightarrow> propertyNameToCommandName p = Inr (nameOf p)"
  by (cases p) (simp_all add: propertyNameToCommandName_def nameOf_def capitalized_def toUpperCase_def)

lemma tracked_nonempty: "p \<in> set CELL_PROPERTIES \<Longrightarrow> p \<noteq> []"
  by (auto simp: CELL_PROPERTIES_def)

lemma name_tracked: "p \<in> set CELL_PROPERTIES \<Longrightarrow> propertyNameToCommandName p = Inr (nameOf p)"
  by (simp add: name_nonempty tracked_nonempty)

lemma names_eval: "map nameOf CELL_PROPERTIES =
  [''tableCellBorderStyle'', ''tableCellBorderColor'', ''tableCellBorderWidth'',
   ''tableCellPadding'', ''tableCellBackgroundColor'',
   ''tableCellHorizontalAlignment'', ''tableCellVerticalAlignment'']"
  by (simp add: CELL_PROPERTIES_def nameOf_def capitalized_def toUpperCase_char_def)

lemma nameOf_not_undo: "nameOf p \<noteq> ''undo''"
  by (simp add: nameOf_def)

lemma andThen_finished:
  "andThen (finished s cs) f = \<lparr>post = post (f s), calls = cs @ calls (f s), thrown = thrown (f s)\<rparr>"
  by (simp add: andThen_def finished_def Let_def)

lemma andThen_throw: "andThen (throw s e) f = throw s e"
  by (simp add: andThen_def throw_def)

lemma hideView_eq:
  "hideView s =
     (if isViewInBalloon s
      then finished
             (s\<lparr>listening := filter (\<lambda>l. l \<noteq> (BalloonE, ''change:visibleView''))
                                (filter (\<lambda>l. l \<noteq> (EditorUiE, ''update'')) (listening s)),
                 balloon := removeAll PropertiesView (balloon s)\<rparr>)
             [EditingViewFocus, SaveButtonFocus, BalloonRemove PropertiesView, EditingViewFocus]
      else finished s [])"
  by (simp add: hideView_def andThen_def stopListening_def isViewInBalloon_def
      balloon_remove_def finished_def Let_def)

lemma hideView_hidden: "\<not> isViewInBalloon (post (hideView s))"
  by (simp add: hideView_eq finished_def isViewInBalloon_def hasView_def)

lemma hideView_frame:
  "batch (post (hideView s)) = batch s"
  "created (post (hideView s)) = created s"
  "viewOn (post (hideView s)) = viewOn s"
  "thrown (hideView s) = None"
  "filter isExecute (calls (hideView s)) = []"
  by (simp_all add: hideView_eq finished_def)

lemma hideView_listening:
  "em = ViewE \<Longrightarrow> (em, ev) \<in> set (listening (post (hideView s))) \<longleftrightarrow> (em, ev) \<in> set (listening s)"
  by (auto simp add: hideView_eq finished_def)

lemma showView_visible: "isViewVisible s \<Longrightarrow> showView cmds s = finished s []"
  by (simp add: showView_def)

lemma onChange_frame: "post (onChange p v s) = s"
  by (simp add: onChange_def finished_def throw_def split: sum.splits)

lemma viewFireChange_frame: "post (viewFireChange p v s) = s"
  by (simp add: viewFireChange_def onChange_frame finished_def)

lemma viewFireChange_attached:
  "''change'' \<in> set (viewOn s) \<Longrightarrow>
   viewFireChange p v s =
     finished s (if p \<in> set CELL_PROPERTIES then [Execute (nameOf p) (ValueAndBatch v (batch s))] else [])"
  by (simp add: viewFireChange_def onChange_def name_tracked)

lemma viewSet_changes_attached:
  "''change'' \<in> set (viewOn s) \<Longrightarrow> viewSet_changes data s = finished s (executions (batch s) data)"
proof (induction data)
  case Nil
  show ?case by (simp add: executions_def)
next
  case (Cons pv data)
  obtain p v where pv: "pv = (p, v)" by (cases pv)
  show ?case
    using Cons by (simp add: pv viewFireChange_attached andThen_finished executions_def)
       (simp add: finished_def)
qed

lemma viewSet_changes_detached:
  "''change'' \<notin> set (viewOn s) \<Longrightarrow> viewSet_changes data s = finished s []"
proof (induction data)
  case Nil
  show ?case by simp
next
  case (Cons pv data)
  obtain p v where pv: "pv = (p, v)" by (cases pv)
  show ?case
    using Cons by (simp add: pv viewFireChange_def andThen_finished)
qed

lemma viewSet_eq:
  "viewSet data s =
     finished s (ViewSet data #
       (if ''change'' \<in> set (viewOn s) then executions (batch s) data else []))"
  by (simp add: viewSet_def andThen_finished viewSet_changes_attached viewSet_changes_detached)
     (simp add: finished_def)

lemma fill_eq:
  "fillViewFormFromCommandValues cmds s =
     (case fillViewFormFromCommandValues_loop cmds CELL_PROPERTIES [] of
        Inl e \<Rightarrow> throw s e
      | Inr data \<Rightarrow>
          finished s (ViewSet data #
            (if ''change'' \<in> set (viewOn s) then executions (batch s) data else [])))"
  by (simp add: fillViewFormFromCommandValues_def viewSet_eq split: sum.splits)

lemma fill_frame: "post (fillViewFormFromCommandValues cmds s) = s"
  by (simp add: fill_eq throw_def finished_def split: sum.splits)

lemma showView_post:
  "\<not> isViewVisible s \<Longrightarrow>
   post (showView cmds s) =
     s\<lparr>balloon := (if isViewInBalloon s then balloon s else PropertiesView # balloon s),
       batch := Some (created s), created := Suc (created s)\<rparr>"
  by (simp add: showView_def andThen_finished balloon_add_def andThen_def finished_def
      fill_frame Let_def split: option.splits)

lemma showView_eq:
  assumes "\<not> isViewVisible s"
  shows "showView cmds s =
     (let adds = (if isViewInBalloon s then [] else [BalloonAdd PropertiesView]);
          s' = s\<lparr>balloon := (if isViewInBalloon s then balloon s else PropertiesView # balloon s),
                 batch := Some (created s), created := Suc (created s)\<rparr>
      in case fillViewFormFromCommandValues_loop cmds CELL_PROPERTIES [] of
           Inl e \<Rightarrow> \<lparr>post = s', calls = adds @ [CreateBatch], thrown = Some e\<rparr>
         | Inr data \<Rightarrow>
             \<lparr>post = s',
              calls = adds @ [CreateBatch, ViewSet data]
                @ (if ''change'' \<in> set (viewOn s) then executions (Some (created s)) data else [])
                @ [ViewFocus],
              thrown = None\<rparr>)"
  using assms
  by (simp add: showView_def fill_eq andThen_def finished_def throw_def balloon_add_def Let_def
      split: sum.splits)

lemma wired_init: "wired (init b n)"
  by (simp add: wired_def init_def createPropertiesView_def startRespondingToChangesInView_def
      listenTo_def)

lemma onUpdate_cases: "onUpdate t s = hideView s \<or> post (onUpdate t s) = s"
  by (simp add: onUpdate_def finished_def)

lemma fire_cases:
  "post (fire e s) = s \<or> post (fire e s) = post (hideView s)
   \<or> (\<exists>cmds. post (fire e s) = post (showView cmds s))
   \<or> (\<exists>bal. post (fire e s) = s\<lparr>balloon := bal\<rparr>)"
proof (cases e)
  case (ButtonExecute cmds) then show ?thesis by auto
next
  case ViewSubmit then show ?thesis by (simp add: onSubmit_def finished_def)
next
  case ViewCancel then show ?thesis by (simp add: onCancel_def andThen_def finished_def Let_def)
next
  case (ViewChange p v) then show ?thesis by (simp add: viewFireChange_frame)
next
  case KeyEsc then show ?thesis
    by (simp add: onEsc_def andThen_def hideView_frame finished_def Let_def)
next
  case (UiUpdate t) then show ?thesis using onUpdate_cases [of t s] by (auto simp: finished_def)
next
  case ClickOutside then show ?thesis by (simp add: onClickOutside_def finished_def)
next
  case (OtherAdd k) then show ?thesis by (auto simp: finished_def)
next
  case (OtherRemove k) then show ?thesis by (auto simp: finished_def)
qed

lemma showView_frame:
  "listening (post (showView cmds s)) = listening s"
  "viewOn (post (showView cmds s)) = viewOn s"
  by (cases "isViewVisible s"; simp add: showView_post showView_visible finished_def)+

lemma wired_hideView: "wired s \<Longrightarrow> wired (post (hideView s))"
  by (simp add: wired_def hideView_listening hideView_frame)

lemma wired_fire: "wired s \<Longrightarrow> wired (post (fire e s))"
  using fire_cases [of e s]
  by (auto simp: wired_hideView) (simp_all add: wired_def showView_frame)

lemma wired_stateAfter: "wired s \<Longrightarrow> wired (stateAfter es s)"
  by (induction es arbitrary: s) (simp_all add: wired_fire)

lemma batchKnown_init: "batchKnown (init b n)"
  by (simp add: batchKnown_def init_def createPropertiesView_def startRespondingToChangesInView_def
      listenTo_def)

lemma batchKnown_showView: "batchKnown s \<Longrightarrow> batchKnown (post (showView cmds s))"
  by (cases "isViewVisible s") (simp_all add: showView_post showView_visible finished_def batchKnown_def)

lemma batchKnown_fire: "batchKnown s \<Longrightarrow> batchKnown (post (fire e s))"
  using fire_cases [of e s]
  by (auto simp: batchKnown_showView) (simp_all add: batchKnown_def hideView_frame split: option.splits)

lemma batchKnown_stateAfter: "batchKnown s \<Longrightarrow> batchKnown (stateAfter es s)"
  by (induction es arbitrary: s) (simp_all add: batchKnown_fire)

lemma created_showView: "created s \<le> created (post (showView cmds s))"
  by (cases "isViewVisible s") (simp_all add: showView_post showView_visible finished_def)

lemma created_fire: "created s \<le> created (post (fire e s))"
  using fire_cases [of e s] by (auto simp: created_showView hideView_frame)

lemma created_stateAfter: "created s \<le> created (stateAfter es s)"
proof (induction es arbitrary: s)
  case Nil
  show ?case by simp
next
  case (Cons e es)
  have "created s \<le> created (post (fire e s))" by (rule created_fire)
  also have "\<dots> \<le> created (stateAfter es (post (fire e s)))" by (rule Cons.IH)
  finally show ?case by simp
qed

lemma stateAfter_append: "stateAfter (es @ fs) s = stateAfter fs (stateAfter es s)"
  by (induction es arbitrary: s) simp_all

lemma trace_append: "trace (es @ fs) s = trace es s @ trace fs (stateAfter es s)"
  by (induction es arbitrary: s) simp_all

lemma earlier_batches:
  assumes "batchKnown s0"
  shows "batch (stateAfter (take k es) s0) \<noteq> Some (created (stateAfter es s0))"
proof -
  let ?m = "stateAfter (take k es) s0"
  have "stateAfter es s0 = stateAfter (drop k es) ?m"
    by (metis append_take_drop_id stateAfter_append)
  then have le: "created ?m \<le> created (stateAfter es s0)"
    by (simp add: created_stateAfter)
  have "batchKnown ?m" using assms by (rule batchKnown_stateAfter)
  with le show ?thesis by (auto simp: batchKnown_def split: option.splits)
qed

lemma fire_change:
  "''change'' \<in> set (viewOn s) \<Longrightarrow>
   fire (ViewChange p v) s =
     finished s (if p \<in> set CELL_PROPERTIES then [Execute (nameOf p) (ValueAndBatch v (batch s))] else [])"
  by (simp add: viewFireChange_attached)

lemma emitted_finished: "emitted (finished s cs) = cs"
  by (simp add: emitted_def finished_def)

lemma post_finished: "post (finished s cs) = s"
  by (simp add: finished_def)

lemma changes_run:
  "''change'' \<in> set (viewOn s) \<Longrightarrow>
   stateAfter (changes pvs) s = s \<and> trace (changes pvs) s = executions (batch s) pvs"
  by (induction pvs)
     (auto simp: changes_def executions_def fire_change emitted_finished post_finished
        simp del: fire.simps)

section \<open>The command names\<close>

lemma distinct_names: "distinct (map nameOf CELL_PROPERTIES)"
  by (simp add: names_eval)

lemma distinct_CELL_PROPERTIES: "distinct CELL_PROPERTIES"
  using distinct_names by (simp add: distinct_map)

lemma map_name_tracked:
  "map propertyNameToCommandName CELL_PROPERTIES = map Inr (map nameOf CELL_PROPERTIES)"
  by (simp add: name_tracked)

text \<open>
  C4. On the seven tracked property names the code's mapping is defined (it raises
  nothing) and gives the specification's \<open>nameOf\<close>: \<open>tableCell\<close> followed by the
  property name with its first letter capitalised, so \<open>borderWidth\<close> becomes
  \<open>tableCellBorderWidth\<close>; the seven command names are pairwise different.
\<close>

theorem propertyNameToCommandName_tracked:
  "(\<forall>p \<in> set CELL_PROPERTIES. propertyNameToCommandName p = Inr (nameOf p))
   \<and> propertyNameToCommandName ''borderWidth'' = Inr ''tableCellBorderWidth''
   \<and> map propertyNameToCommandName CELL_PROPERTIES =
       map Inr [''tableCellBorderStyle'', ''tableCellBorderColor'', ''tableCellBorderWidth'',
                ''tableCellPadding'', ''tableCellBackgroundColor'',
                ''tableCellHorizontalAlignment'', ''tableCellVerticalAlignment'']
   \<and> length CELL_PROPERTIES = 7
   \<and> distinct CELL_PROPERTIES
   \<and> inj_on propertyNameToCommandName (set CELL_PROPERTIES)"
proof -
  have total: "\<forall>p \<in> set CELL_PROPERTIES. propertyNameToCommandName p = Inr (nameOf p)"
    by (simp add: name_tracked)
  have example: "propertyNameToCommandName ''borderWidth'' = Inr ''tableCellBorderWidth''"
    by (simp add: propertyNameToCommandName_def toUpperCase_def toUpperCase_char_def)
  have table: "map propertyNameToCommandName CELL_PROPERTIES =
       map Inr [''tableCellBorderStyle'', ''tableCellBorderColor'', ''tableCellBorderWidth'',
                ''tableCellPadding'', ''tableCellBackgroundColor'',
                ''tableCellHorizontalAlignment'', ''tableCellVerticalAlignment'']"
    by (simp only: map_name_tracked names_eval)
  have seven: "length CELL_PROPERTIES = 7"
    by (simp add: CELL_PROPERTIES_def)
  have "distinct (map propertyNameToCommandName CELL_PROPERTIES)"
    using distinct_names by (simp only: map_name_tracked distinct_map inj_on_def) auto
  then have "inj_on propertyNameToCommandName (set CELL_PROPERTIES)"
    by (simp add: distinct_map)
  with total example table seven distinct_CELL_PROPERTIES show ?thesis
    by blast
qed

theorem propertyNameToCommandName_tracked_witness:
  "''padding'' \<in> set CELL_PROPERTIES
   \<and> propertyNameToCommandName ''padding'' = Inr ''tableCellPadding''"
proof -
  have mem: "''padding'' \<in> set CELL_PROPERTIES"
    by (simp add: CELL_PROPERTIES_def)
  have "nameOf ''padding'' = ''tableCellPadding''"
    by (simp add: nameOf_def capitalized_def toUpperCase_char_def)
  with mem propertyNameToCommandName_tracked show ?thesis
    by simp
qed

section \<open>Changes of untracked properties\<close>

text \<open>
  C8. A change event for a property name that is not one of the seven tracked ones makes
  no call at all (no command is executed) and leaves the state as it was, whether the
  form is shown or not.
\<close>

theorem untracked_change_ignored:
  assumes "p \<notin> set CELL_PROPERTIES"
  shows "onChange p v s = finished s []
         \<and> fire (ViewChange p v) s = finished s []
         \<and> trace [ViewChange p v] s = []
         \<and> stateAfter [ViewChange p v] s = s"
proof -
  have h: "onChange p v s = finished s []"
    using assms by (simp add: onChange_def)
  then have f: "fire (ViewChange p v) s = finished s []"
    by (simp add: viewFireChange_def)
  show ?thesis
    using h f by (simp add: emitted_finished post_finished del: fire.simps)
qed

theorem untracked_change_ignored_witness:
  "''isBorderStyleSet'' \<notin> set CELL_PROPERTIES
   \<and> trace [ButtonExecute (allReporting (JStr ''x'')), ViewChange ''isBorderStyleSet'' (JBool True)] (init [] 0)
       = trace [ButtonExecute (allReporting (JStr ''x''))] (init [] 0)"
proof -
  have h: "''isBorderStyleSet'' \<notin> set CELL_PROPERTIES"
    by (simp add: CELL_PROPERTIES_def)
  show ?thesis
    using h untracked_change_ignored [OF h, of "JBool True"
        "post (fire (ButtonExecute (allReporting (JStr ''x''))) (init [] 0))"]
    by (simp add: emitted_finished post_finished del: fire.simps)
qed

section \<open>Filling the form\<close>

lemma setProp_fresh: "k \<notin> fst ` set ps \<Longrightarrow> setProp k v ps = ps @ [(k, v)]"
  by (induction ps) auto

lemma formValue_registered:
  "p \<noteq> [] \<Longrightarrow> cmds (nameOf p) = Some w \<Longrightarrow>
   formValue cmds p = Inr (if truthy w then w else defaultOf p)"
  by (simp add: formValue_def name_nonempty defaultOf_def DEFAULT_BORDER_STYLE_def
      DEFAULT_HORIZONTAL_ALIGNMENT_def DEFAULT_VERTICAL_ALIGNMENT_def)

lemma fill_loop_registered:
  "\<lbrakk>\<forall>p \<in> set ps. p \<noteq> [] \<and> cmds (nameOf p) = Some (report p);
    distinct ps; set ps \<inter> fst ` set data = {}\<rbrakk> \<Longrightarrow>
   fillViewFormFromCommandValues_loop cmds ps data =
     Inr (data @ map (\<lambda>p. (p, if truthy (report p) then report p else defaultOf p)) ps)"
proof (induction ps arbitrary: data)
  case Nil
  show ?case by simp
next
  case (Cons p ps)
  let ?v = "if truthy (report p) then report p else defaultOf p"
  have fv: "formValue cmds p = Inr ?v"
    using Cons.prems(1) by (simp add: formValue_registered)
  have fresh: "p \<notin> fst ` set data"
    using Cons.prems(3) by auto
  have disj: "set ps \<inter> fst ` set (data @ [(p, ?v)]) = {}"
    using Cons.prems(2,3) by auto
  have "fillViewFormFromCommandValues_loop cmds ps (data @ [(p, ?v)]) =
        Inr ((data @ [(p, ?v)]) @ map (\<lambda>p. (p, if truthy (report p) then report p else defaultOf p)) ps)"
    using Cons.prems(1,2) disj by (intro Cons.IH) auto
  then show ?case
    using fv fresh by (simp add: setProp_fresh)
qed

lemma executions_no_viewSet: "filter isViewSet (executions b pvs) = []"
  by (induction pvs) (auto simp: executions_def)

text \<open>
  C6. When each of the seven commands is registered, the form is filled by exactly one
  \<open>set\<close> call, with the record that gives every tracked property, in order, the value
  its command reports if that value is truthy and the property's default otherwise
  (\<open>none\<close>, \<open>left\<close> and \<open>middle\<close> for the border style and the two alignments, the empty
  string for the others). The only other calls of the fill are the command executions
  of the change events that \<open>set\<close> fires, when the change callback is attached. For
  commands that report the empty string for those three properties and \<open>x\<close> for the
  other four, the record is the one the specification gives.
\<close>

theorem fill_substitutes_defaults:
  "((\<forall>p \<in> set CELL_PROPERTIES. cmds (nameOf p) = Some (report p)) \<longrightarrow>
      fillViewFormFromCommandValues cmds s =
        finished s
          (ViewSet (map (\<lambda>p. (p, if truthy (report p) then report p else defaultOf p))
                      CELL_PROPERTIES)
           # (if ''change'' \<in> set (viewOn s)
              then executions (batch s)
                     (map (\<lambda>p. (p, if truthy (report p) then report p else defaultOf p))
                        CELL_PROPERTIES)
              else []))
      \<and> filter isViewSet (calls (fillViewFormFromCommandValues cmds s)) =
          [ViewSet (map (\<lambda>p. (p, if truthy (report p) then report p else defaultOf p))
                      CELL_PROPERTIES)])
   \<and> (cmds ''tableCellBorderStyle'' = Some (JStr [])
        \<and> cmds ''tableCellBorderColor'' = Some (JStr ''x'')
        \<and> cmds ''tableCellBorderWidth'' = Some (JStr ''x'')
        \<and> cmds ''tableCellPadding'' = Some (JStr ''x'')
        \<and> cmds ''tableCellBackgroundColor'' = Some (JStr ''x'')
        \<and> cmds ''tableCellHorizontalAlignment'' = Some (JStr [])
        \<and> cmds ''tableCellVerticalAlignment'' = Some (JStr []) \<longrightarrow>
      fillViewFormFromCommandValues cmds s =
        finished s
          (ViewSet [(''borderStyle'', JStr ''none''), (''borderColor'', JStr ''x''),
                    (''borderWidth'', JStr ''x''), (''padding'', JStr ''x''),
                    (''backgroundColor'', JStr ''x''),
                    (''horizontalAlignment'', JStr ''left''),
                    (''verticalAlignment'', JStr ''middle'')]
           # (if ''change'' \<in> set (viewOn s)
              then executions (batch s)
                     [(''borderStyle'', JStr ''none''), (''borderColor'', JStr ''x''),
                    (''borderWidth'', JStr ''x''), (''padding'', JStr ''x''),
                    (''backgroundColor'', JStr ''x''),
                    (''horizontalAlignment'', JStr ''left''),
                    (''verticalAlignment'', JStr ''middle'')]
              else []))
      \<and> filter isViewSet (calls (fillViewFormFromCommandValues cmds s)) =
          [ViewSet [(''borderStyle'', JStr ''none''), (''borderColor'', JStr ''x''),
                    (''borderWidth'', JStr ''x''), (''padding'', JStr ''x''),
                    (''backgroundColor'', JStr ''x''),
                    (''horizontalAlignment'', JStr ''left''),
                    (''verticalAlignment'', JStr ''middle'')]])"
proof -
  have general: "fillViewFormFromCommandValues cmds s =
        finished s
          (ViewSet (map (\<lambda>p. (p, if truthy (r p) then r p else defaultOf p)) CELL_PROPERTIES)
           # (if ''change'' \<in> set (viewOn s)
              then executions (batch s)
                     (map (\<lambda>p. (p, if truthy (r p) then r p else defaultOf p)) CELL_PROPERTIES)
              else []))"
    if reg: "\<forall>p \<in> set CELL_PROPERTIES. cmds (nameOf p) = Some (r p)" for r
  proof -
    have "fillViewFormFromCommandValues_loop cmds CELL_PROPERTIES [] =
          Inr ([] @ map (\<lambda>p. (p, if truthy (r p) then r p else defaultOf p)) CELL_PROPERTIES)"
      using reg distinct_CELL_PROPERTIES
      by (intro fill_loop_registered) (simp_all add: tracked_nonempty)
    then show ?thesis
      by (simp add: fill_eq)
  qed
  have one: "filter isViewSet (calls (fillViewFormFromCommandValues cmds s)) =
        [ViewSet (map (\<lambda>p. (p, if truthy (r p) then r p else defaultOf p)) CELL_PROPERTIES)]"
    if reg: "\<forall>p \<in> set CELL_PROPERTIES. cmds (nameOf p) = Some (r p)" for r
    unfolding general [OF reg] by (simp add: finished_def executions_no_viewSet)
  let ?r = "\<lambda>p. if p = ''borderStyle'' \<or> p = ''horizontalAlignment'' \<or> p = ''verticalAlignment''
                 then JStr [] else JStr ''x''"
  let ?rec = "[(''borderStyle'', JStr ''none''), (''borderColor'', JStr ''x''),
                    (''borderWidth'', JStr ''x''), (''padding'', JStr ''x''),
                    (''backgroundColor'', JStr ''x''),
                    (''horizontalAlignment'', JStr ''left''),
                    (''verticalAlignment'', JStr ''middle'')]"
  have given: "fillViewFormFromCommandValues cmds s =
        finished s (ViewSet ?rec #
          (if ''change'' \<in> set (viewOn s) then executions (batch s) ?rec else []))
      \<and> filter isViewSet (calls (fillViewFormFromCommandValues cmds s)) = [ViewSet ?rec]"
    if rep: "cmds ''tableCellBorderStyle'' = Some (JStr [])
        \<and> cmds ''tableCellBorderColor'' = Some (JStr ''x'')
        \<and> cmds ''tableCellBorderWidth'' = Some (JStr ''x'')
        \<and> cmds ''tableCellPadding'' = Some (JStr ''x'')
        \<and> cmds ''tableCellBackgroundColor'' = Some (JStr ''x'')
        \<and> cmds ''tableCellHorizontalAlignment'' = Some (JStr [])
        \<and> cmds ''tableCellVerticalAlignment'' = Some (JStr [])"
  proof -
    have "list_all (\<lambda>p. cmds (nameOf p) = Some (?r p)) CELL_PROPERTIES"
      using rep by (simp add: CELL_PROPERTIES_def nameOf_def capitalized_def toUpperCase_char_def)
    then have reg: "\<forall>p \<in> set CELL_PROPERTIES. cmds (nameOf p) = Some (?r p)"
      by (simp add: list_all_iff)
    have rec: "map (\<lambda>p. (p, if truthy (?r p) then ?r p else defaultOf p)) CELL_PROPERTIES = ?rec"
      by (simp add: CELL_PROPERTIES_def defaultOf_def)
    show ?thesis
      using one [OF reg] general [OF reg] unfolding rec by blast
  qed
  from general one given show ?thesis by blast
qed

theorem fill_substitutes_defaults_witness:
  "calls (fillViewFormFromCommandValues
     (map_of [(''tableCellBorderStyle'', JStr []), (''tableCellBorderColor'', JStr ''x''),
              (''tableCellBorderWidth'', JStr ''x''), (''tableCellPadding'', JStr ''x''),
              (''tableCellBackgroundColor'', JStr ''x''),
              (''tableCellHorizontalAlignment'', JStr []),
              (''tableCellVerticalAlignment'', JStr [])])
     (init [] 0)) =
   [ViewSet [(''borderStyle'', JStr ''none''), (''borderColor'', JStr ''x''),
             (''borderWidth'', JStr ''x''), (''padding'', JStr ''x''),
             (''backgroundColor'', JStr ''x''),
             (''horizontalAlignment'', JStr ''left''),
             (''verticalAlignment'', JStr ''middle'')],
    Execute ''tableCellBorderStyle'' (ValueAndBatch (JStr ''none'') None),
    Execute ''tableCellBorderColor'' (ValueAndBatch (JStr ''x'') None),
    Execute ''tableCellBorderWidth'' (ValueAndBatch (JStr ''x'') None),
    Execute ''tableCellPadding'' (ValueAndBatch (JStr ''x'') None),
    Execute ''tableCellBackgroundColor'' (ValueAndBatch (JStr ''x'') None),
    Execute ''tableCellHorizontalAlignment'' (ValueAndBatch (JStr ''left'') None),
    Execute ''tableCellVerticalAlignment'' (ValueAndBatch (JStr ''middle'') None)]
   \<and> filter isViewSet (calls (fillViewFormFromCommandValues
     (map_of [(''tableCellBorderStyle'', JStr []), (''tableCellBorderColor'', JStr ''x''),
              (''tableCellBorderWidth'', JStr ''x''), (''tableCellPadding'', JStr ''x''),
              (''tableCellBackgroundColor'', JStr ''x''),
              (''tableCellHorizontalAlignment'', JStr []),
              (''tableCellVerticalAlignment'', JStr [])])
     (init [] 0))) =
   [ViewSet [(''borderStyle'', JStr ''none''), (''borderColor'', JStr ''x''),
             (''borderWidth'', JStr ''x''), (''padding'', JStr ''x''),
             (''backgroundColor'', JStr ''x''),
             (''horizontalAlignment'', JStr ''left''),
             (''verticalAlignment'', JStr ''middle'')]]"
proof -
  let ?m = "map_of [(''tableCellBorderStyle'', JStr []), (''tableCellBorderColor'', JStr ''x''),
              (''tableCellBorderWidth'', JStr ''x''), (''tableCellPadding'', JStr ''x''),
              (''tableCellBackgroundColor'', JStr ''x''),
              (''tableCellHorizontalAlignment'', JStr []),
              (''tableCellVerticalAlignment'', JStr [])]"
  have all: "calls (fillViewFormFromCommandValues ?m (init [] 0)) =
   [ViewSet [(''borderStyle'', JStr ''none''), (''borderColor'', JStr ''x''),
             (''borderWidth'', JStr ''x''), (''padding'', JStr ''x''),
             (''backgroundColor'', JStr ''x''),
             (''horizontalAlignment'', JStr ''left''),
             (''verticalAlignment'', JStr ''middle'')],
    Execute ''tableCellBorderStyle'' (ValueAndBatch (JStr ''none'') None),
    Execute ''tableCellBorderColor'' (ValueAndBatch (JStr ''x'') None),
    Execute ''tableCellBorderWidth'' (ValueAndBatch (JStr ''x'') None),
    Execute ''tableCellPadding'' (ValueAndBatch (JStr ''x'') None),
    Execute ''tableCellBackgroundColor'' (ValueAndBatch (JStr ''x'') None),
    Execute ''tableCellHorizontalAlignment'' (ValueAndBatch (JStr ''left'') None),
    Execute ''tableCellVerticalAlignment'' (ValueAndBatch (JStr ''middle'') None)]"
    by code_simp
  have reports: "?m ''tableCellBorderStyle'' = Some (JStr [])
        \<and> ?m ''tableCellBorderColor'' = Some (JStr ''x'')
        \<and> ?m ''tableCellBorderWidth'' = Some (JStr ''x'')
        \<and> ?m ''tableCellPadding'' = Some (JStr ''x'')
        \<and> ?m ''tableCellBackgroundColor'' = Some (JStr ''x'')
        \<and> ?m ''tableCellHorizontalAlignment'' = Some (JStr [])
        \<and> ?m ''tableCellVerticalAlignment'' = Some (JStr [])"
    by simp
  note inst = fill_substitutes_defaults
    [where cmds = ?m and s = "init [] 0" and report = "\<lambda>p. JStr ''x''"]
  from inst [THEN conjunct2, THEN mp, OF reports]
  have "filter isViewSet (calls (fillViewFormFromCommandValues ?m (init [] 0))) =
   [ViewSet [(''borderStyle'', JStr ''none''), (''borderColor'', JStr ''x''),
             (''borderWidth'', JStr ''x''), (''padding'', JStr ''x''),
             (''backgroundColor'', JStr ''x''),
             (''horizontalAlignment'', JStr ''left''),
             (''verticalAlignment'', JStr ''middle'')]]"
    by (rule conjunct2)
  with all show ?thesis
    by blast
qed

section \<open>Submit and Esc\<close>

lemma emitted_hideView: "emitted (hideView s) = calls (hideView s)"
  by (simp add: emitted_def hideView_frame)

text \<open>
  C7. In every state the plugin can reach, the form's submit action runs \<open>hideView\<close> and
  nothing else: the view is out of the balloon afterwards, no command is executed (so no
  undo), no exception is raised, and the batch and the editor's batches are as before.
\<close>

theorem submit_hides_without_undo:
  assumes "s = stateAfter es (init b n)"
  shows "fire ViewSubmit s = hideView s
         \<and> \<not> isViewInBalloon (post (fire ViewSubmit s))
         \<and> filter isExecute (emitted (fire ViewSubmit s)) = []
         \<and> filter isUndo (trace [ViewSubmit] s) = []
         \<and> thrown (fire ViewSubmit s) = None
         \<and> batch (post (fire ViewSubmit s)) = batch s
         \<and> created (post (fire ViewSubmit s)) = created s"
proof -
  have "wired s"
    unfolding assms using wired_init by (rule wired_stateAfter)
  then have f: "fire ViewSubmit s = hideView s"
    by (simp add: wired_def onSubmit_def)
  have "filter isUndo (calls (hideView s)) = []"
    by (simp add: hideView_eq finished_def)
  then show ?thesis
    unfolding trace.simps f
    by (simp add: hideView_hidden hideView_frame emitted_hideView)
qed

theorem submit_hides_without_undo_witness:
  "trace [ViewSubmit]
     (stateAfter [ButtonExecute (allReporting (JStr ''x'')), ViewChange ''padding'' (JStr ''5px'')]
        (init [] 0))
     = [EditingViewFocus, SaveButtonFocus, BalloonRemove PropertiesView, EditingViewFocus]
   \<and> batch (post (fire ViewSubmit
        (stateAfter [ButtonExecute (allReporting (JStr ''x'')), ViewChange ''padding'' (JStr ''5px'')]
           (init [] 0)))) = Some 0
   \<and> \<not> isViewInBalloon (post (fire ViewSubmit
        (stateAfter [ButtonExecute (allReporting (JStr ''x'')), ViewChange ''padding'' (JStr ''5px'')]
           (init [] 0))))"
proof -
  let ?es = "[ButtonExecute (allReporting (JStr ''x'')), ViewChange ''padding'' (JStr ''5px'')]"
  let ?s = "stateAfter ?es (init [] 0)"
  have calls: "trace [ViewSubmit] ?s =
      [EditingViewFocus, SaveButtonFocus, BalloonRemove PropertiesView, EditingViewFocus]"
    by code_simp
  have before: "batch ?s = Some 0"
    by code_simp
  from submit_hides_without_undo [of ?s ?es "[]" 0, OF refl]
  have "batch (post (fire ViewSubmit ?s)) = batch ?s"
    and "\<not> isViewInBalloon (post (fire ViewSubmit ?s))"
    by blast+
  with calls before show ?thesis
    by (simp del: fire.simps stateAfter.simps trace.simps)
qed

text \<open>
  C2 (as the code has it). The Esc keystroke of the form runs \<open>hideView\<close> and then stops
  the key event; it executes no command, so no undo, and leaves the batch as it is. The
  view is out of the balloon afterwards.
\<close>

theorem esc_hides_without_undo:
  "post (fire KeyEsc s) = post (hideView s)
   \<and> emitted (fire KeyEsc s) = calls (hideView s) @ [KeystrokeCancel]
   \<and> filter isExecute (emitted (fire KeyEsc s)) = []
   \<and> filter isUndo (trace [KeyEsc] s) = []
   \<and> \<not> isViewInBalloon (post (fire KeyEsc s))
   \<and> batch (post (fire KeyEsc s)) = batch s"
proof -
  have f: "fire KeyEsc s =
      \<lparr>post = post (hideView s), calls = calls (hideView s) @ [KeystrokeCancel], thrown = None\<rparr>"
    by (simp add: onEsc_def andThen_def hideView_frame finished_def Let_def)
  have "filter isUndo (calls (hideView s)) = []"
    by (simp add: hideView_eq finished_def)
  then show ?thesis
    unfolding trace.simps f
    by (simp add: emitted_def hideView_frame hideView_hidden)
qed

text \<open>
  C2, the claim as stated fails: with the form shown and one field changed, Esc makes
  the calls of \<open>hideView\<close> and stops the key event, and no undo of the batch is among
  them, while the cancel action starts with that undo.
\<close>

theorem esc_executes_no_undo:
  "trace [KeyEsc]
     (stateAfter [ButtonExecute (allReporting (JStr ''x'')), ViewChange ''borderWidth'' (JStr ''2px'')]
        (init [] 0))
     = [EditingViewFocus, SaveButtonFocus, BalloonRemove PropertiesView, EditingViewFocus,
        KeystrokeCancel]
   \<and> Execute ''undo'' (BatchArg (Some 0)) \<notin> set (trace [KeyEsc]
     (stateAfter [ButtonExecute (allReporting (JStr ''x'')), ViewChange ''borderWidth'' (JStr ''2px'')]
        (init [] 0)))
   \<and> trace [ViewCancel]
     (stateAfter [ButtonExecute (allReporting (JStr ''x'')), ViewChange ''borderWidth'' (JStr ''2px'')]
        (init [] 0))
     = [Execute ''undo'' (BatchArg (Some 0)),
        EditingViewFocus, SaveButtonFocus, BalloonRemove PropertiesView, EditingViewFocus]"
  by code_simp

section \<open>A session ended by cancel\<close>

lemma no_execute_no_undo: "filter isExecute cs = [] \<Longrightarrow> filter isUndo cs = []"
proof (induction cs)
  case Nil
  show ?case by simp
next
  case (Cons c cs)
  then show ?case by (cases c) (simp_all split: if_splits)
qed

lemma emitted_no_execute: "filter isExecute (emitted r) = filter isExecute (calls r)"
  by (simp add: emitted_def split: option.splits)

lemma executions_tracked:
  "fst ` set pvs \<subseteq> set CELL_PROPERTIES \<Longrightarrow>
   executions b pvs = map (\<lambda>(p, v). Execute (nameOf p) (ValueAndBatch v b)) pvs"
proof -
  assume "fst ` set pvs \<subseteq> set CELL_PROPERTIES"
  then have "filter (\<lambda>(p, v). p \<in> set CELL_PROPERTIES) pvs = pvs"
    by (intro filter_True) auto
  then show ?thesis by (simp add: executions_def)
qed

lemma executions_are_executes: "filter isExecute (executions b pvs) = executions b pvs"
  by (induction pvs) (auto simp: executions_def)

lemma executions_no_undo: "filter isUndo (executions b pvs) = []"
  by (induction pvs) (auto simp: executions_def nameOf_not_undo)

lemma showView_batch:
  "\<not> isViewVisible s \<Longrightarrow>
   batch (post (showView cmds s)) = Some (created s)
   \<and> created (post (showView cmds s)) = Suc (created s)"
  by (simp add: showView_post)

lemma showView_attached: "\<not> isViewVisible s \<Longrightarrow> isViewInBalloon (post (showView cmds s))"
  by (simp add: showView_post isViewInBalloon_def hasView_def)

lemma showView_from_hidden: "\<not> isViewInBalloon s \<Longrightarrow> isViewVisible (post (showView cmds s))"
proof -
  assume h: "\<not> isViewInBalloon s"
  then have "\<not> isViewVisible s"
    by (auto simp: isViewVisible_def isViewInBalloon_def hasView_def visibleView_def
        split: list.splits)
  with h show ?thesis
    by (simp add: showView_post isViewVisible_def visibleView_def)
qed

lemma fire_cancel:
  "(ViewE, ''cancel'') \<in> set (listening s) \<Longrightarrow>
   post (fire ViewCancel s) = post (hideView s)
   \<and> emitted (fire ViewCancel s) = Execute ''undo'' (BatchArg (batch s)) # calls (hideView s)"
  by (simp add: onCancel_def andThen_finished emitted_def hideView_frame)

lemma reachable_wired: "wired (stateAfter es (init b n))"
  using wired_init by (rule wired_stateAfter)

lemma executions_append: "executions b (xs @ ys) = executions b xs @ executions b ys"
  by (simp add: executions_def)

lemma executions_are_field_executes: "filter isFieldExecute (executions b pvs) = executions b pvs"
  by (induction pvs) (auto simp: executions_def)

lemma executions_no_createBatch: "filter (\<lambda>c. c = CreateBatch) (executions b pvs) = []"
  by (induction pvs) (auto simp: executions_def)

lemma showView_executes:
  "\<lbrakk>\<not> isViewVisible s; ''change'' \<in> set (viewOn s)\<rbrakk> \<Longrightarrow>
   filter isExecute (emitted (showView cmds s)) = fillExecutions cmds (Some (created s))"
  by (simp add: showView_eq emitted_def fillExecutions_def executions_are_executes Let_def
      split: sum.splits)

lemma showView_field_executes:
  "\<lbrakk>\<not> isViewVisible s; ''change'' \<in> set (viewOn s)\<rbrakk> \<Longrightarrow>
   filter isFieldExecute (emitted (showView cmds s)) = fillExecutions cmds (Some (created s))"
  by (simp add: showView_eq emitted_def fillExecutions_def executions_are_field_executes Let_def
      split: sum.splits)

lemma fillExecutions_no_undo: "filter isUndo (fillExecutions cmds b) = []"
  by (simp add: fillExecutions_def executions_no_undo split: sum.splits)

lemma fillExecutions_registered:
  assumes "\<forall>p \<in> set CELL_PROPERTIES. cmds (nameOf p) = Some (report p)"
  shows "fillExecutions cmds b =
     map (\<lambda>p. Execute (nameOf p)
                (ValueAndBatch (if truthy (report p) then report p else defaultOf p) b))
       CELL_PROPERTIES"
proof -
  have "fillViewFormFromCommandValues_loop cmds CELL_PROPERTIES [] =
        Inr ([] @ map (\<lambda>p. (p, if truthy (report p) then report p else defaultOf p))
                    CELL_PROPERTIES)"
    using assms distinct_CELL_PROPERTIES
    by (intro fill_loop_registered) (simp_all add: tracked_nonempty)
  then show ?thesis
    by (simp add: fillExecutions_def executions_def comp_def)
qed

text \<open>
  C1 (as the code has it). From a reachable state in which the form is not visible, a
  session of \<open>show\<close>, any number of change events of tracked fields and the form's cancel
  action makes, in this order: the calls of \<open>show\<close>, which creates the batch and, filling
  the form, executes a command for each property of the record (seven when the commands
  are registered, none when the fill raises), all with that batch; one command execution
  for each change, with the new value and that batch; one undo of that batch; and the
  calls of \<open>hide\<close> (no command). So the session has exactly one undo, after all the other
  executions, the executions of the changes are the last ones before it, and the view
  is out of the balloon at the end.
\<close>

theorem cancel_session:
  assumes "s = stateAfter es (init b n)"
    and "\<not> isViewVisible s"
    and "fst ` set pvs \<subseteq> set CELL_PROPERTIES"
  shows "batch (post (showView cmds s)) = Some (created s)
    \<and> created (post (showView cmds s)) = Suc (created s)
    \<and> trace (ButtonExecute cmds # changes pvs @ [ViewCancel]) s =
        emitted (showView cmds s)
        @ map (\<lambda>(p, v). Execute (nameOf p) (ValueAndBatch v (Some (created s)))) pvs
        @ [Execute ''undo'' (BatchArg (Some (created s)))]
        @ calls (hideView (post (showView cmds s)))
    \<and> filter isExecute (emitted (showView cmds s)) = fillExecutions cmds (Some (created s))
    \<and> ((\<forall>p \<in> set CELL_PROPERTIES. cmds (nameOf p) = Some (report p)) \<longrightarrow>
         fillExecutions cmds (Some (created s)) =
           map (\<lambda>p. Execute (nameOf p)
                      (ValueAndBatch (if truthy (report p) then report p else defaultOf p)
                         (Some (created s))))
             CELL_PROPERTIES)
    \<and> filter isExecute (trace (ButtonExecute cmds # changes pvs @ [ViewCancel]) s) =
        fillExecutions cmds (Some (created s))
        @ map (\<lambda>(p, v). Execute (nameOf p) (ValueAndBatch v (Some (created s)))) pvs
        @ [Execute ''undo'' (BatchArg (Some (created s)))]
    \<and> filter isUndo (trace (ButtonExecute cmds # changes pvs @ [ViewCancel]) s) =
        [Execute ''undo'' (BatchArg (Some (created s)))]
    \<and> \<not> isViewInBalloon (stateAfter (ButtonExecute cmds # changes pvs @ [ViewCancel]) s)"
proof -
  let ?o = "post (showView cmds s)"
  let ?b = "Some (created s)"
  let ?xs = "map (\<lambda>(p, v). Execute (nameOf p) (ValueAndBatch v ?b)) pvs"
  have ws: "wired s"
    unfolding assms(1) by (rule reachable_wired)
  then have "wired (post (fire (ButtonExecute cmds) s))"
    by (rule wired_fire)
  then have w: "wired ?o"
    by simp
  have bat: "batch ?o = ?b" and cre: "created ?o = Suc (created s)"
    using assms(2) by (simp_all add: showView_batch)
  have ch: "stateAfter (changes pvs) ?o = ?o" "trace (changes pvs) ?o = executions ?b pvs"
    using w changes_run [of ?o pvs] by (simp_all add: wired_def bat)
  have xs: "executions ?b pvs = ?xs"
    using assms(3) by (rule executions_tracked)
  have ca: "post (fire ViewCancel ?o) = post (hideView ?o)"
    "emitted (fire ViewCancel ?o) = Execute ''undo'' (BatchArg ?b) # calls (hideView ?o)"
    using w fire_cancel [of ?o] by (simp_all add: wired_def bat)
  have "trace (ButtonExecute cmds # changes pvs @ [ViewCancel]) s =
      emitted (showView cmds s) @ trace (changes pvs @ [ViewCancel]) ?o"
    by simp
  also have "trace (changes pvs @ [ViewCancel]) ?o = ?xs @ trace [ViewCancel] ?o"
    by (simp only: trace_append ch xs)
  also have "trace [ViewCancel] ?o = Execute ''undo'' (BatchArg ?b) # calls (hideView ?o)"
    by (simp add: ca del: fire.simps)
  finally have tr: "trace (ButtonExecute cmds # changes pvs @ [ViewCancel]) s =
      emitted (showView cmds s) @ ?xs @ [Execute ''undo'' (BatchArg ?b)] @ calls (hideView ?o)"
    by simp
  have "stateAfter (ButtonExecute cmds # changes pvs @ [ViewCancel]) s =
      stateAfter (changes pvs @ [ViewCancel]) ?o"
    by simp
  also have "\<dots> = stateAfter [ViewCancel] ?o"
    by (simp only: stateAfter_append ch)
  also have "\<dots> = post (hideView ?o)"
    by (simp add: ca del: fire.simps)
  finally have st:
    "stateAfter (ButtonExecute cmds # changes pvs @ [ViewCancel]) s = post (hideView ?o)" .
  have e1: "filter isExecute (emitted (showView cmds s)) = fillExecutions cmds ?b"
    using assms(2) ws by (simp add: showView_executes wired_def)
  have reg: "fillExecutions cmds ?b =
      map (\<lambda>p. Execute (nameOf p)
                 (ValueAndBatch (if truthy (report p) then report p else defaultOf p) ?b))
        CELL_PROPERTIES"
    if "\<forall>p \<in> set CELL_PROPERTIES. cmds (nameOf p) = Some (report p)"
    using that by (rule fillExecutions_registered)
  have e2: "filter isExecute ?xs = ?xs"
    using executions_are_executes [of ?b pvs] by (simp add: xs)
  have e3: "filter isExecute (calls (hideView ?o)) = []"
    by (rule hideView_frame)
  have u1: "filter isUndo (emitted (showView cmds s)) = []"
  proof -
    have "filter isUndo (filter isExecute (emitted (showView cmds s))) = []"
      unfolding e1 by (rule fillExecutions_no_undo)
    moreover have "filter isUndo (filter isExecute cs) = filter isUndo cs" for cs
    proof (induction cs)
      case Nil
      show ?case by simp
    next
      case (Cons c cs)
      then show ?case by (cases c) simp_all
    qed
    ultimately show ?thesis by simp
  qed
  have u2: "filter isUndo ?xs = []"
    using executions_no_undo [of ?b pvs] by (simp add: xs)
  have ex: "filter isExecute (trace (ButtonExecute cmds # changes pvs @ [ViewCancel]) s) =
      fillExecutions cmds ?b @ ?xs @ [Execute ''undo'' (BatchArg ?b)]"
    unfolding tr filter_append e1 e2 e3 by simp
  have un: "filter isUndo (trace (ButtonExecute cmds # changes pvs @ [ViewCancel]) s) =
      [Execute ''undo'' (BatchArg ?b)]"
    unfolding tr filter_append u1 u2 no_execute_no_undo [OF e3] by simp
  have hid: "\<not> isViewInBalloon (stateAfter (ButtonExecute cmds # changes pvs @ [ViewCancel]) s)"
    unfolding st by (rule hideView_hidden)
  from bat cre tr e1 reg ex un hid show ?thesis
    by blast
qed

theorem cancel_session_witness:
  "\<not> isViewVisible (init [] 0)
   \<and> fst ` set [(''borderWidth'', JStr ''2px''), (''padding'', JStr ''5px'')] \<subseteq> set CELL_PROPERTIES
   \<and> filter isExecute
        (trace (ButtonExecute (allReporting (JStr ''x''))
                # changes [(''borderWidth'', JStr ''2px''), (''padding'', JStr ''5px'')]
                @ [ViewCancel]) (init [] 0)) =
      fillExecutions (allReporting (JStr ''x'')) (Some 0)
      @ [Execute ''tableCellBorderWidth'' (ValueAndBatch (JStr ''2px'') (Some 0)),
         Execute ''tableCellPadding'' (ValueAndBatch (JStr ''5px'') (Some 0)),
         Execute ''undo'' (BatchArg (Some 0))]
   \<and> filter isUndo
        (trace (ButtonExecute (allReporting (JStr ''x''))
                # changes [(''borderWidth'', JStr ''2px''), (''padding'', JStr ''5px'')]
                @ [ViewCancel]) (init [] 0)) =
      [Execute ''undo'' (BatchArg (Some 0))]
   \<and> batch (post (showView (allReporting (JStr ''x'')) (init [] 0))) = Some 0
   \<and> \<not> isViewInBalloon
        (stateAfter (ButtonExecute (allReporting (JStr ''x''))
                # changes [(''borderWidth'', JStr ''2px''), (''padding'', JStr ''5px'')]
                @ [ViewCancel]) (init [] 0))"
proof -
  have h1: "init [] 0 = stateAfter [] (init [] 0)"
    by simp
  have h2: "\<not> isViewVisible (init [] 0)"
    by code_simp
  have h3: "fst ` set [(''borderWidth'', JStr ''2px''), (''padding'', JStr ''5px'')]
      \<subseteq> set CELL_PROPERTIES"
    by (simp add: CELL_PROPERTIES_def)
  have n: "created (init [] 0) = 0"
    by code_simp
  have names: "nameOf ''borderWidth'' = ''tableCellBorderWidth''"
    "nameOf ''padding'' = ''tableCellPadding''"
    by code_simp+
  from cancel_session [OF h1 h2 h3, where cmds = "allReporting (JStr ''x'')"]
  have "filter isExecute
        (trace (ButtonExecute (allReporting (JStr ''x''))
                # changes [(''borderWidth'', JStr ''2px''), (''padding'', JStr ''5px'')]
                @ [ViewCancel]) (init [] 0)) =
      fillExecutions (allReporting (JStr ''x'')) (Some (created (init [] 0)))
      @ map (\<lambda>(p, v). Execute (nameOf p) (ValueAndBatch v (Some (created (init [] 0)))))
        [(''borderWidth'', JStr ''2px''), (''padding'', JStr ''5px'')]
      @ [Execute ''undo'' (BatchArg (Some (created (init [] 0))))]"
    and "filter isUndo
        (trace (ButtonExecute (allReporting (JStr ''x''))
                # changes [(''borderWidth'', JStr ''2px''), (''padding'', JStr ''5px'')]
                @ [ViewCancel]) (init [] 0)) =
      [Execute ''undo'' (BatchArg (Some (created (init [] 0))))]"
    and "batch (post (showView (allReporting (JStr ''x'')) (init [] 0))) = Some (created (init [] 0))"
    and "\<not> isViewInBalloon
        (stateAfter (ButtonExecute (allReporting (JStr ''x''))
                # changes [(''borderWidth'', JStr ''2px''), (''padding'', JStr ''5px'')]
                @ [ViewCancel]) (init [] 0))"
    by blast+
  with h2 h3 show ?thesis
    by (simp add: n names del: stateAfter.simps trace.simps)
qed

text \<open>
  C1, the claim as stated fails: in the session \<open>show\<close>, change of \<open>borderWidth\<close>, change
  of \<open>padding\<close>, cancel, with commands that all report \<open>x\<close>, nine executions come before
  the undo, not two: \<open>show\<close> fills the form, and the change callback executes the seven
  commands of the record before the two of the session's own changes.
\<close>

theorem cancel_session_show_executes:
  "filter isExecute
     (trace [ButtonExecute (allReporting (JStr ''x'')),
             ViewChange ''borderWidth'' (JStr ''2px''),
             ViewChange ''padding'' (JStr ''5px''),
             ViewCancel] (init [] 0)) =
   [Execute ''tableCellBorderStyle'' (ValueAndBatch (JStr ''x'') (Some 0)),
    Execute ''tableCellBorderColor'' (ValueAndBatch (JStr ''x'') (Some 0)),
    Execute ''tableCellBorderWidth'' (ValueAndBatch (JStr ''x'') (Some 0)),
    Execute ''tableCellPadding'' (ValueAndBatch (JStr ''x'') (Some 0)),
    Execute ''tableCellBackgroundColor'' (ValueAndBatch (JStr ''x'') (Some 0)),
    Execute ''tableCellHorizontalAlignment'' (ValueAndBatch (JStr ''x'') (Some 0)),
    Execute ''tableCellVerticalAlignment'' (ValueAndBatch (JStr ''x'') (Some 0)),
    Execute ''tableCellBorderWidth'' (ValueAndBatch (JStr ''2px'') (Some 0)),
    Execute ''tableCellPadding'' (ValueAndBatch (JStr ''5px'') (Some 0)),
    Execute ''undo'' (BatchArg (Some 0))]
   \<and> filter isExecute
     (trace [ButtonExecute (allReporting (JStr ''x'')),
             ViewChange ''borderWidth'' (JStr ''2px''),
             ViewChange ''padding'' (JStr ''5px''),
             ViewCancel] (init [] 0)) \<noteq>
   [Execute ''tableCellBorderWidth'' (ValueAndBatch (JStr ''2px'') (Some 0)),
    Execute ''tableCellPadding'' (ValueAndBatch (JStr ''5px'') (Some 0)),
    Execute ''undo'' (BatchArg (Some 0))]"
  by code_simp

section \<open>The batch of a session\<close>

lemma reachable_batchKnown: "batchKnown (stateAfter es (init b n))"
  using batchKnown_init by (rule batchKnown_stateAfter)

lemma showView_creates_once:
  "\<not> isViewVisible s \<Longrightarrow>
   filter (\<lambda>c. c = CreateBatch) (emitted (showView cmds s)) = [CreateBatch]"
  by (simp add: showView_eq emitted_def executions_no_createBatch Let_def split: sum.splits)

lemma batch_fire_not_show: "\<not> isShow e \<Longrightarrow> batch (post (fire e s)) = batch s"
proof (cases e)
  case ViewCancel
  then show ?thesis
    by (simp add: onCancel_def andThen_finished hideView_frame post_finished)
next
  case KeyEsc
  then show ?thesis
    by (simp add: onEsc_def andThen_def hideView_frame finished_def Let_def)
qed (simp_all add: onSubmit_def viewFireChange_frame onUpdate_def onClickOutside_def
       hideView_frame post_finished)

lemma batch_before_show: "filter isShow es = [] \<Longrightarrow> batch (stateAfter es s) = batch s"
proof (induction es arbitrary: s)
  case Nil
  show ?case by simp
next
  case (Cons e es)
  then have "\<not> isShow e" and "filter isShow es = []"
    by (simp_all split: if_splits)
  then show ?case
    using Cons.IH [of "post (fire e s)"] by (simp add: batch_fire_not_show del: fire.simps)
qed

lemma batch_init: "batch (init b n) = None"
  by (simp add: init_def createPropertiesView_def startRespondingToChangesInView_def listenTo_def)

lemma batch_fire_kept:
  "(if isShow e then isViewVisible s else True) \<Longrightarrow> batch (post (fire e s)) = batch s"
proof (cases "isShow e")
  case True
  assume "if isShow e then isViewVisible s else True"
  with True have "isViewVisible s" by simp
  with True show ?thesis
    by (cases e) (simp_all add: showView_visible post_finished)
next
  case False
  then show ?thesis by (rule batch_fire_not_show)
qed

lemma batch_kept: "showsOnlyWhenVisible es s \<Longrightarrow> batch (stateAfter es s) = batch s"
proof (induction es arbitrary: s)
  case Nil
  show ?case by simp
next
  case (Cons e es)
  then have "batch (post (fire e s)) = batch s"
    and "showsOnlyWhenVisible es (post (fire e s))"
    by (simp_all add: batch_fire_kept del: fire.simps)
  then show ?case
    using Cons.IH [of "post (fire e s)"] by (simp del: fire.simps)
qed

lemma hideView_no_field_execute: "filter isFieldExecute (calls (hideView s)) = []"
  by (simp add: hideView_eq finished_def)

lemma field_executes_fire:
  assumes "wired s" and "if isShow e then isViewVisible s else True"
  shows "filter isFieldExecute (emitted (fire e s)) = executions (batch s) (changeOf e)"
proof (cases e)
  case (ButtonExecute cmds)
  with assms(2) show ?thesis
    by (simp add: showView_visible emitted_finished executions_def)
next
  case ViewSubmit
  then show ?thesis
    by (simp add: onSubmit_def emitted_def hideView_frame hideView_no_field_execute
        executions_def finished_def)
next
  case ViewCancel
  then show ?thesis
    by (simp add: onCancel_def andThen_def emitted_def hideView_frame
        hideView_no_field_execute executions_def finished_def Let_def)
next
  case (ViewChange p v)
  with assms(1) show ?thesis
    by (simp add: wired_def viewFireChange_attached emitted_finished executions_def)
next
  case KeyEsc
  then show ?thesis
    by (simp add: onEsc_def andThen_def emitted_def hideView_frame hideView_no_field_execute
        executions_def finished_def Let_def)
next
  case (UiUpdate t)
  then show ?thesis
    by (simp add: onUpdate_def emitted_def hideView_frame hideView_no_field_execute
        executions_def finished_def)
next
  case ClickOutside
  then show ?thesis
    by (simp add: onClickOutside_def emitted_def hideView_frame hideView_no_field_execute
        executions_def finished_def)
next
  case (OtherAdd k)
  then show ?thesis by (simp add: emitted_def executions_def finished_def)
next
  case (OtherRemove k)
  then show ?thesis by (simp add: emitted_def executions_def finished_def)
qed

lemma field_executes_trace:
  "\<lbrakk>wired s; showsOnlyWhenVisible es s\<rbrakk> \<Longrightarrow>
   filter isFieldExecute (trace es s) = executions (batch s) (changesOf es)"
proof (induction es arbitrary: s)
  case Nil
  show ?case by (simp add: changesOf_def executions_def)
next
  case (Cons e es)
  let ?s1 = "post (fire e s)"
  have ok: "if isShow e then isViewVisible s else True" and rest: "showsOnlyWhenVisible es ?s1"
    using Cons.prems(2) by simp_all
  have here: "filter isFieldExecute (emitted (fire e s)) = executions (batch s) (changeOf e)"
    using Cons.prems(1) ok by (rule field_executes_fire)
  have "wired ?s1"
    using Cons.prems(1) by (rule wired_fire)
  then have "filter isFieldExecute (trace es ?s1) = executions (batch ?s1) (changesOf es)"
    using rest by (rule Cons.IH)
  moreover have "batch ?s1 = batch s"
    using ok by (rule batch_fire_kept)
  ultimately show ?case
    using here by (simp add: changesOf_def executions_append del: fire.simps)
qed

text \<open>
  C3 (as the code has it). From a reachable state in which the form is not visible (the
  hidden state among them), \<open>show\<close> creates one batch and stores it: the stored batch is
  the one just created, it is different from the batch held before and from the batch
  held at any earlier moment of the plugin's history, and the view is in the balloon
  (visible, when it was hidden). The executions that filling the form causes carry that
  batch. After it, through any events in which no further \<open>show\<close> finds the form not
  visible, the plugin holds that batch, and every change of a tracked property executes
  its command with the new value and exactly that batch.
\<close>

theorem show_allocates_fresh_batch:
  assumes "s = stateAfter es (init b n)"
    and "\<not> isViewVisible s"
    and "s' = post (fire (ButtonExecute cmds) s)"
  shows "batch s' = Some (created s)
    \<and> created s' = Suc (created s)
    \<and> filter (\<lambda>c. c = CreateBatch) (emitted (fire (ButtonExecute cmds) s)) = [CreateBatch]
    \<and> batch s' \<noteq> batch s
    \<and> (\<forall>k. batch (stateAfter (take k es) (init b n)) \<noteq> batch s')
    \<and> isViewInBalloon s'
    \<and> (isViewInBalloon s \<or> isViewVisible s')
    \<and> stateAfter (changes pvs) s' = s'
    \<and> trace (changes pvs) s' = executions (batch s') pvs
    \<and> filter isFieldExecute (emitted (fire (ButtonExecute cmds) s)) = fillExecutions cmds (batch s')
    \<and> (showsOnlyWhenVisible es' s' \<longrightarrow>
         batch (stateAfter es' s') = batch s'
         \<and> filter isFieldExecute (trace es' s') = executions (batch s') (changesOf es'))"
proof -
  have s': "s' = post (showView cmds s)"
    using assms(3) by simp
  have bat: "batch s' = Some (created s)" and cre: "created s' = Suc (created s)"
    using assms(2) unfolding s' by (simp_all add: showView_batch)
  have once: "filter (\<lambda>c. c = CreateBatch) (emitted (fire (ButtonExecute cmds) s)) = [CreateBatch]"
    using assms(2) by (simp add: showView_creates_once)
  have earlier: "batch (stateAfter (take k es) (init b n)) \<noteq> batch s'" for k
    unfolding bat assms(1) using batchKnown_init by (rule earlier_batches)
  have "batch (stateAfter (take (length es) es) (init b n)) \<noteq> batch s'"
    by (rule earlier)
  then have new: "batch s' \<noteq> batch s"
    unfolding assms(1) by simp
  have att: "isViewInBalloon s'"
    using assms(2) unfolding s' by (rule showView_attached)
  have vis: "isViewInBalloon s \<or> isViewVisible s'"
    unfolding s' using showView_from_hidden by blast
  have ws: "wired s"
    unfolding assms(1) by (rule reachable_wired)
  then have "wired (post (fire (ButtonExecute cmds) s))"
    by (rule wired_fire)
  then have w': "wired s'"
    unfolding assms(3) .
  then have "''change'' \<in> set (viewOn s')"
    by (simp add: wired_def)
  then have ch: "stateAfter (changes pvs) s' = s' \<and> trace (changes pvs) s' = executions (batch s') pvs"
    by (rule changes_run)
  have fill: "filter isFieldExecute (emitted (fire (ButtonExecute cmds) s)) =
      fillExecutions cmds (batch s')"
    using assms(2) ws unfolding bat by (simp add: showView_field_executes wired_def)
  have later: "batch (stateAfter es' s') = batch s'
      \<and> filter isFieldExecute (trace es' s') = executions (batch s') (changesOf es')"
    if "showsOnlyWhenVisible es' s'"
    using that w' by (simp add: batch_kept field_executes_trace)
  from bat cre once new earlier att vis ch fill later show ?thesis
    by blast
qed

theorem show_allocates_fresh_batch_witness:
  "\<not> isViewVisible (stateAfter [ButtonExecute (allReporting JNull), ViewSubmit] (init [] 0))
   \<and> batch (stateAfter [ButtonExecute (allReporting JNull), ViewSubmit] (init [] 0)) = Some 0
   \<and> batch (post (fire (ButtonExecute (allReporting JNull))
        (stateAfter [ButtonExecute (allReporting JNull), ViewSubmit] (init [] 0)))) = Some 1
   \<and> showsOnlyWhenVisible
        [ViewChange ''padding'' (JStr ''5px''), ButtonExecute (allReporting JNull), OtherAdd 0,
         ViewChange ''isPaddingSet'' (JBool True), ViewChange ''borderColor'' (JStr ''red'')]
        (post (fire (ButtonExecute (allReporting JNull))
           (stateAfter [ButtonExecute (allReporting JNull), ViewSubmit] (init [] 0))))
   \<and> filter isFieldExecute
        (trace
          [ViewChange ''padding'' (JStr ''5px''), ButtonExecute (allReporting JNull), OtherAdd 0,
           ViewChange ''isPaddingSet'' (JBool True), ViewChange ''borderColor'' (JStr ''red'')]
          (post (fire (ButtonExecute (allReporting JNull))
             (stateAfter [ButtonExecute (allReporting JNull), ViewSubmit] (init [] 0)))))
      = [Execute ''tableCellPadding'' (ValueAndBatch (JStr ''5px'') (Some 1)),
         Execute ''tableCellBorderColor'' (ValueAndBatch (JStr ''red'') (Some 1))]"
proof -
  let ?es = "[ButtonExecute (allReporting JNull), ViewSubmit]"
  let ?s = "stateAfter ?es (init [] 0)"
  let ?s' = "post (fire (ButtonExecute (allReporting JNull)) ?s)"
  let ?es' = "[ViewChange ''padding'' (JStr ''5px''), ButtonExecute (allReporting JNull), OtherAdd 0,
               ViewChange ''isPaddingSet'' (JBool True), ViewChange ''borderColor'' (JStr ''red'')]"
  have h: "\<not> isViewVisible ?s"
    by code_simp
  have keeps: "showsOnlyWhenVisible ?es' ?s'"
    by code_simp
  have before: "batch ?s = Some 0" and n: "created ?s = 1"
    by code_simp+
  have ex: "executions (Some (Suc 0)) (changesOf ?es') =
      [Execute ''tableCellPadding'' (ValueAndBatch (JStr ''5px'') (Some (Suc 0))),
       Execute ''tableCellBorderColor'' (ValueAndBatch (JStr ''red'') (Some (Suc 0)))]"
    by code_simp
  from show_allocates_fresh_batch [OF refl h refl, where cmds = "allReporting JNull" and es' = ?es']
    keeps
  have "batch ?s' = Some (created ?s)"
    and "filter isFieldExecute (trace ?es' ?s') = executions (batch ?s') (changesOf ?es')"
    by blast+
  with h before keeps show ?thesis
    by (simp add: n ex del: stateAfter.simps trace.simps fire.simps showsOnlyWhenVisible.simps)
qed

text \<open>
  C3, the claim as stated fails: the form is shown from the hidden state (batch 0) and a
  field is changed; another plugin's view is put over the form, and \<open>show\<close> is called
  again. The form has been in the balloon all along, yet the second \<open>show\<close> stores a new
  batch, and the next change of a field carries batch 1, not the batch of the transition
  from hidden to attached.
\<close>

theorem batch_replaced_while_attached:
  "\<not> isViewInBalloon (init [] 0)
   \<and> batch (stateAfter [ButtonExecute (allReporting (JStr ''x''))] (init [] 0)) = Some 0
   \<and> isViewInBalloon (stateAfter [ButtonExecute (allReporting (JStr ''x''))] (init [] 0))
   \<and> isViewInBalloon (stateAfter [ButtonExecute (allReporting (JStr ''x'')),
         ViewChange ''padding'' (JStr ''5px'')] (init [] 0))
   \<and> isViewInBalloon (stateAfter [ButtonExecute (allReporting (JStr ''x'')),
         ViewChange ''padding'' (JStr ''5px''), OtherAdd 0] (init [] 0))
   \<and> isViewInBalloon (stateAfter [ButtonExecute (allReporting (JStr ''x'')),
         ViewChange ''padding'' (JStr ''5px''), OtherAdd 0,
         ButtonExecute (allReporting (JStr ''x''))] (init [] 0))
   \<and> trace [ViewChange ''padding'' (JStr ''6px'')]
        (stateAfter [ButtonExecute (allReporting (JStr ''x'')),
           ViewChange ''padding'' (JStr ''5px''), OtherAdd 0,
           ButtonExecute (allReporting (JStr ''x''))] (init [] 0))
      = [Execute ''tableCellPadding'' (ValueAndBatch (JStr ''6px'') (Some 1))]"
  by code_simp

section \<open>Two calls of show in a row\<close>

lemma hidden_not_visible: "\<not> isViewInBalloon s \<Longrightarrow> \<not> isViewVisible s"
  by (auto simp: isViewVisible_def isViewInBalloon_def hasView_def visibleView_def
      split: list.splits)

lemma showView_leaves_visible:
  "\<not> isViewInBalloon s \<or> isViewVisible s \<Longrightarrow> isViewVisible (post (showView cmds s))"
  by (cases "isViewVisible s")
     (simp_all add: showView_visible post_finished showView_from_hidden)

lemma visible_in_balloon: "isViewVisible s \<Longrightarrow> isViewInBalloon s"
  using hidden_not_visible by blast

text \<open>
  C5 (as the code has it). When the form is hidden or already visible at the first call,
  it is visible after it, and a second \<open>show\<close> (whatever the commands report by then) does
  nothing: no call, no new batch, no second filling of the form, the same state. Two
  calls in a row then leave the state and make the calls of one.
\<close>

theorem show_twice_when_visible:
  assumes "\<not> isViewInBalloon s \<or> isViewVisible s"
  shows "showView cmds' (post (showView cmds s)) = finished (post (showView cmds s)) []
    \<and> stateAfter [ButtonExecute cmds, ButtonExecute cmds'] s = stateAfter [ButtonExecute cmds] s
    \<and> trace [ButtonExecute cmds, ButtonExecute cmds'] s = trace [ButtonExecute cmds] s
    \<and> isViewInBalloon (stateAfter [ButtonExecute cmds, ButtonExecute cmds'] s)
    \<and> batch (stateAfter [ButtonExecute cmds, ButtonExecute cmds'] s) = batch (post (showView cmds s))
    \<and> created (stateAfter [ButtonExecute cmds, ButtonExecute cmds'] s) = created (post (showView cmds s))"
proof -
  let ?o = "post (showView cmds s)"
  have vis: "isViewVisible ?o"
    using assms by (rule showView_leaves_visible)
  then have second: "showView cmds' ?o = finished ?o []"
    by (rule showView_visible)
  have st: "stateAfter [ButtonExecute cmds, ButtonExecute cmds'] s = ?o"
    by (simp add: second post_finished)
  have tr: "trace [ButtonExecute cmds, ButtonExecute cmds'] s = trace [ButtonExecute cmds] s"
    by (simp add: second emitted_finished)
  have "isViewInBalloon ?o"
    using vis by (rule visible_in_balloon)
  with second tr show ?thesis
    unfolding st by simp
qed

theorem show_twice_when_visible_witness:
  "\<not> isViewInBalloon (init [] 0)
   \<and> trace [ButtonExecute (allReporting (JStr ''x'')), ButtonExecute (allReporting (JStr ''y''))]
        (init [] 0)
      = trace [ButtonExecute (allReporting (JStr ''x''))] (init [] 0)
   \<and> batch (stateAfter [ButtonExecute (allReporting (JStr ''x'')),
                         ButtonExecute (allReporting (JStr ''y''))] (init [] 0)) = Some 0"
proof -
  have h: "\<not> isViewInBalloon (init [] 0)"
    by code_simp
  then have h': "\<not> isViewInBalloon (init [] 0) \<or> isViewVisible (init [] 0)"
    by simp
  have b: "batch (post (showView (allReporting (JStr ''x'')) (init [] 0))) = Some 0"
    by code_simp
  from show_twice_when_visible [OF h', where cmds = "allReporting (JStr ''x'')"
      and cmds' = "allReporting (JStr ''y'')"]
  have "trace [ButtonExecute (allReporting (JStr ''x'')), ButtonExecute (allReporting (JStr ''y''))]
          (init [] 0)
        = trace [ButtonExecute (allReporting (JStr ''x''))] (init [] 0)"
    and "batch (stateAfter [ButtonExecute (allReporting (JStr ''x'')),
                         ButtonExecute (allReporting (JStr ''y''))] (init [] 0))
        = batch (post (showView (allReporting (JStr ''x'')) (init [] 0)))"
    by blast+
  with h b show ?thesis
    by (simp del: stateAfter.simps trace.simps)
qed

text \<open>
  C5, the claim as stated fails: when another plugin's view lies over the form in the
  balloon, the form is in the balloon and not visible; \<open>show\<close> does not make it visible,
  and each of two calls in a row creates a batch and fills the form again.
\<close>

theorem show_twice_under_other_view:
  "balloon (stateAfter [ButtonExecute (allReporting (JStr ''x'')), OtherAdd 0] (init [] 0))
     = [OtherView 0, PropertiesView]
   \<and> batch (stateAfter [ButtonExecute (allReporting (JStr ''x''))]
        (stateAfter [ButtonExecute (allReporting (JStr ''x'')), OtherAdd 0] (init [] 0))) = Some 1
   \<and> batch (stateAfter [ButtonExecute (allReporting (JStr ''x'')), ButtonExecute (allReporting (JStr ''x''))]
        (stateAfter [ButtonExecute (allReporting (JStr ''x'')), OtherAdd 0] (init [] 0))) = Some 2
   \<and> count_list
        (trace [ButtonExecute (allReporting (JStr ''x''))]
          (stateAfter [ButtonExecute (allReporting (JStr ''x'')), OtherAdd 0] (init [] 0)))
        CreateBatch = 1
   \<and> count_list
        (trace [ButtonExecute (allReporting (JStr ''x'')), ButtonExecute (allReporting (JStr ''x''))]
          (stateAfter [ButtonExecute (allReporting (JStr ''x'')), OtherAdd 0] (init [] 0)))
        CreateBatch = 2
   \<and> trace [ButtonExecute (allReporting (JStr ''x'')), ButtonExecute (allReporting (JStr ''x''))]
          (stateAfter [ButtonExecute (allReporting (JStr ''x'')), OtherAdd 0] (init [] 0))
      \<noteq> trace [ButtonExecute (allReporting (JStr ''x''))]
          (stateAfter [ButtonExecute (allReporting (JStr ''x'')), OtherAdd 0] (init [] 0))"
  by code_simp

section \<open>The change callback when the form is hidden\<close>

text \<open>
  C9. \<open>init\<close> attaches one callback to the view's \<open>change\<close>; \<open>hide\<close> leaves the view's
  callbacks as they are, and so does every event: in every reachable state, hidden or
  not, a change of a tracked property executes its command with the new value and the
  batch the plugin holds. Before the first \<open>show\<close> that batch is \<open>null\<close>.
\<close>

theorem change_listener_outlives_hide:
  "viewOn (init b n) = [''change'']
   \<and> viewOn (post (hideView s)) = viewOn s
   \<and> ''change'' \<in> set (viewOn (stateAfter es (init b n)))
   \<and> (p \<in> set CELL_PROPERTIES \<longrightarrow>
        fire (ViewChange p v) (stateAfter es (init b n)) =
          finished (stateAfter es (init b n))
            [Execute (nameOf p) (ValueAndBatch v (batch (stateAfter es (init b n))))])
   \<and> (p \<in> set CELL_PROPERTIES \<and> filter isShow es = [] \<longrightarrow>
        trace [ViewChange p v] (stateAfter es (init b n)) =
          [Execute (nameOf p) (ValueAndBatch v None)])"
proof -
  let ?s = "stateAfter es (init b n)"
  have once: "viewOn (init b n) = [''change'']"
    by (simp add: init_def createPropertiesView_def startRespondingToChangesInView_def listenTo_def)
  have hide: "viewOn (post (hideView s)) = viewOn s"
    by (rule hideView_frame)
  have on: "''change'' \<in> set (viewOn ?s)"
    using reachable_wired [of es b n] by (simp add: wired_def)
  have exec: "fire (ViewChange p v) ?s =
      finished ?s [Execute (nameOf p) (ValueAndBatch v (batch ?s))]"
    if "p \<in> set CELL_PROPERTIES"
    using on that by (simp add: fire_change del: fire.simps)
  have null: "trace [ViewChange p v] ?s = [Execute (nameOf p) (ValueAndBatch v None)]"
    if "p \<in> set CELL_PROPERTIES \<and> filter isShow es = []"
  proof -
    have "batch ?s = None"
      using that by (simp add: batch_before_show batch_init)
    then show ?thesis
      using exec that by (simp add: emitted_finished del: fire.simps)
  qed
  from once hide on exec null show ?thesis
    by blast
qed

theorem change_listener_outlives_hide_witness:
  "''padding'' \<in> set CELL_PROPERTIES
   \<and> filter isShow [UiUpdate False, KeyEsc] = []
   \<and> trace [ViewChange ''padding'' (JStr ''5px'')] (stateAfter [UiUpdate False, KeyEsc] (init [] 0))
      = [Execute ''tableCellPadding'' (ValueAndBatch (JStr ''5px'') None)]
   \<and> \<not> isViewInBalloon (stateAfter [ButtonExecute (allReporting JNull), ViewSubmit] (init [] 0))
   \<and> fire (ViewChange ''padding'' (JStr ''5px''))
        (stateAfter [ButtonExecute (allReporting JNull), ViewSubmit] (init [] 0))
      = finished (stateAfter [ButtonExecute (allReporting JNull), ViewSubmit] (init [] 0))
          [Execute ''tableCellPadding'' (ValueAndBatch (JStr ''5px'') (Some 0))]"
proof -
  have h1: "''padding'' \<in> set CELL_PROPERTIES"
    by (simp add: CELL_PROPERTIES_def)
  have h2: "filter isShow [UiUpdate False, KeyEsc] = []"
    by simp
  have name: "nameOf ''padding'' = ''tableCellPadding''"
    by code_simp
  have hidden: "\<not> isViewInBalloon (stateAfter [ButtonExecute (allReporting JNull), ViewSubmit] (init [] 0))"
    and held: "batch (stateAfter [ButtonExecute (allReporting JNull), ViewSubmit] (init [] 0)) = Some 0"
    by code_simp+
  from change_listener_outlives_hide [where b = "[]" and n = 0 and es = "[UiUpdate False, KeyEsc]"
      and p = "''padding''" and v = "JStr ''5px''"]
    h1 h2
  have a: "trace [ViewChange ''padding'' (JStr ''5px'')] (stateAfter [UiUpdate False, KeyEsc] (init [] 0))
      = [Execute (nameOf ''padding'') (ValueAndBatch (JStr ''5px'') None)]"
    by blast
  from change_listener_outlives_hide [where b = "[]" and n = 0
      and es = "[ButtonExecute (allReporting JNull), ViewSubmit]"
      and p = "''padding''" and v = "JStr ''5px''"] h1
  have b: "fire (ViewChange ''padding'' (JStr ''5px''))
        (stateAfter [ButtonExecute (allReporting JNull), ViewSubmit] (init [] 0))
      = finished (stateAfter [ButtonExecute (allReporting JNull), ViewSubmit] (init [] 0))
          [Execute (nameOf ''padding'') (ValueAndBatch (JStr ''5px'')
             (batch (stateAfter [ButtonExecute (allReporting JNull), ViewSubmit] (init [] 0))))]"
    by blast
  from h1 h2 hidden a b show ?thesis
    unfolding name held by blast
qed

end
